theory Spec2Isabelle
  imports
    Complex_Main
    "HOL-Library.Sublist"
    "HOL-Library.Char_ord"
    "HOL-Library.List_Lexorder"
begin

section \<open>Strings\<close>

text \<open>
  JavaScript strings are modelled as \<open>string\<close> (lists of 8-bit characters); the
  helpers below are the ASCII readings of the built-ins the sources call.
\<close>

definition str_includes :: "string \<Rightarrow> string \<Rightarrow> bool" where
  \<comment> \<open>\<open>s.includes(t)\<close>: \<open>t\<close> occurs in \<open>s\<close> as a contiguous substring.\<close>
  "str_includes s t = sublist t s"

definition lowerChar :: "char \<Rightarrow> char" where
  "lowerChar c =
     (if CHR ''A'' \<le> c \<and> c \<le> CHR ''Z'' then char_of (of_char c + (32::nat)) else c)"

definition toLowerCase :: "string \<Rightarrow> string" where
  "toLowerCase s = map lowerChar s"

definition isWordChar :: "char \<Rightarrow> bool" where
  \<comment> \<open>the regular-expression class \<open>\w\<close>\<close>
  "isWordChar c =
     ((CHR ''a'' \<le> c \<and> c \<le> CHR ''z'') \<or> (CHR ''A'' \<le> c \<and> c \<le> CHR ''Z'')
      \<or> (CHR ''0'' \<le> c \<and> c \<le> CHR ''9'') \<or> c = CHR ''_'')"

definition isSpaceChar :: "char \<Rightarrow> bool" where
  \<comment> \<open>the regular-expression class \<open>\s\<close>, on ASCII\<close>
  "isSpaceChar c = (of_char c \<in> {9, 10, 11, 12, 13, 32 :: nat})"

fun splitOn :: "(char \<Rightarrow> bool) \<Rightarrow> string \<Rightarrow> string \<Rightarrow> string list" where
  \<comment> \<open>\<open>s.split(sep)\<close> for a one-character separator; the second argument is the
      piece being read\<close>
  "splitOn sep cur [] = [rev cur]"
| "splitOn sep cur (c # cs) =
     (if sep c then rev cur # splitOn sep [] cs else splitOn sep (c # cur) cs)"

definition split :: "char \<Rightarrow> string \<Rightarrow> string list" where
  "split d s = splitOn (\<lambda>c. c = d) [] s"

definition splitWhitespace :: "string \<Rightarrow> string list" where
  \<comment> \<open>\<open>s.split(/\s+/)\<close>: a run of separators counts once; a leading or trailing run
      leaves an empty first or last piece, as in JavaScript\<close>
  "splitWhitespace s =
     (let ps = splitOn isSpaceChar [] s in
      case ps of
        [] \<Rightarrow> []
      | p # rest \<Rightarrow>
          (if rest = [] then [p]
           else p # filter (\<lambda>w. w \<noteq> []) (butlast rest) @ [last rest]))"

fun join :: "string \<Rightarrow> string list \<Rightarrow> string" where
  "join d [] = []"
| "join d [p] = p"
| "join d (p # q # ps) = p @ d @ join d (q # ps)"

fun wordMatches :: "string \<Rightarrow> bool \<Rightarrow> string \<Rightarrow> nat" where
  \<comment> \<open>the number of matches of \<open>new RegExp('\\b' + term + '\\b', 'gi')\<close> in a
      lower-cased text, for a term made of word characters (all that
      \<open>extractSearchTerms\<close> produces): an occurrence counts when the character
      before it and the character after it are not word characters. The flag says
      whether the previous character was a word character.\<close>
  "wordMatches term prevW [] = 0"
| "wordMatches term prevW (c # cs) =
     (if \<not> prevW \<and> term \<noteq> [] \<and> prefix (toLowerCase term) (c # cs)
         \<and> (case drop (length term) (c # cs) of [] \<Rightarrow> True | d # _ \<Rightarrow> \<not> isWordChar d)
      then 1 else 0)
     + wordMatches term (isWordChar c) cs"

section \<open>Relevance Search Engine (\<open>server-code-context-service.ts\<close>)\<close>

datatype ContextType =
  CtFunction | CtClass | CtInterface | CtComponent | CtConfig | CtTest | CtDocumentation

record CodeFile =
  fullPath :: string
  relativePath :: string
  name :: string

record CodeContext =
  filePath :: string
  fileName :: string
  repository :: string
  content :: string
  relevanceScore :: real
  lineNumbers :: "(nat \<times> nat) option"
  language :: string
  contextType :: ContextType

record CodeSearchResult =
  contexts :: "CodeContext list"
  totalMatches :: nat
  searchTerms :: "string list"
  confidence :: real

definition technicalTerms :: "string list" where
  "technicalTerms =
    [''function'', ''class'', ''interface'', ''component'', ''method'', ''variable'', ''constant'',
     ''async'', ''await'', ''promise'', ''callback'', ''event'', ''handler'', ''listener'',
     ''state'', ''props'', ''context'', ''hook'', ''effect'', ''reducer'', ''action'',
     ''error'', ''bug'', ''crash'', ''fail'', ''exception'', ''timeout'', ''memory'', ''leak'',
     ''performance'', ''slow'', ''optimization'', ''bottleneck'', ''deadlock'',
     ''react'', ''typescript'', ''javascript'', ''node'', ''express'', ''api'', ''database'',
     ''sql'', ''mongodb'', ''redis'', ''auth'', ''authentication'', ''authorization'',
     ''test'', ''testing'', ''jest'', ''cypress'', ''docker'', ''kubernetes'',
     ''config'', ''configuration'', ''env'', ''environment'', ''package'', ''dependency'',
     ''route'', ''middleware'', ''controller'', ''service'', ''util'', ''helper'']"

definition isCamelCase :: "string \<Rightarrow> bool" where
  \<comment> \<open>\<open>/^[A-Z][a-z]+[A-Z]/.test(word)\<close>\<close>
  "isCamelCase w =
     (case w of
        [] \<Rightarrow> False
      | c # cs \<Rightarrow>
          CHR ''A'' \<le> c \<and> c \<le> CHR ''Z''
          \<and> (let lows = takeWhile (\<lambda>d. CHR ''a'' \<le> d \<and> d \<le> CHR ''z'') cs;
                   rest = dropWhile (\<lambda>d. CHR ''a'' \<le> d \<and> d \<le> CHR ''z'') cs
               in lows \<noteq> []
                  \<and> (case rest of [] \<Rightarrow> False | e # _ \<Rightarrow> CHR ''A'' \<le> e \<and> e \<le> CHR ''Z'')))"

definition extractSearchTerms :: "string \<Rightarrow> string list" where
  "extractSearchTerms query =
     (let words =
            filter (\<lambda>word. length word > 2)
              (splitWhitespace
                 (map (\<lambda>c. if isWordChar c \<or> isSpaceChar c then c else CHR '' '')
                    (toLowerCase query)));
          kept =
            filter (\<lambda>word. word \<in> set technicalTerms \<or> length word > 4 \<or> isCamelCase word)
              words;
          phrases = filter (\<lambda>term. str_includes (toLowerCase query) term) technicalTerms
      in rev (remdups (rev (kept @ phrases))))"

definition calculateFileRelevance :: "CodeFile \<Rightarrow> string \<Rightarrow> string list \<Rightarrow> string \<Rightarrow> real" where
  "calculateFileRelevance file text terms originalQuery =
     (let contentLower = toLowerCase text;
          fileName = toLowerCase (name file);
          filePath = toLowerCase (relativePath file);
          score0 = (0::real);
          score1 =
            foldl (\<lambda>score term.
                     (let s = (if str_includes fileName term then score + 0.3 else score)
                      in if str_includes filePath term then s + 0.2 else s))
                  score0 terms;
          score2 =
            foldl (\<lambda>score term.
                     (let matches = wordMatches term False contentLower
                      in if matches > 0 then score + min (real matches * 0.05) 0.2 else score))
                  score1 terms;
          score3 =
            (if str_includes originalQuery ''test''
                \<and> (str_includes fileName ''test'' \<or> str_includes fileName ''spec'')
             then score2 + 0.2 else score2);
          score4 =
            (if str_includes originalQuery ''config''
                \<and> (str_includes fileName ''config'' \<or> str_includes fileName ''env'')
             then score3 + 0.2 else score3);
          score5 =
            (if str_includes originalQuery ''component'' \<and> str_includes fileName ''component''
             then score4 + 0.2 else score4)
      in min score5 1.0)"

definition calculateSearchConfidence :: "CodeContext list \<Rightarrow> string list \<Rightarrow> real" where
  "calculateSearchConfidence ctxs terms =
     (if length ctxs = 0 then 0
      else
        (let c1 = 0 + min (real (length ctxs) * 0.1) 0.3;
             avgRelevance =
               foldl (\<lambda>sum ctx. sum + relevanceScore ctx) 0 ctxs / real (length ctxs);
             c2 = c1 + avgRelevance * 0.4;
             termCoverage = (if length terms > 0 then 0.3 else 0);
             c3 = c2 + termCoverage
         in min c3 1.0))"

definition extractRelevantSection :: "string \<Rightarrow> string list \<Rightarrow> (string \<times> nat \<times> nat) option" where
  \<comment> \<open>the window's text with its 1-based first and last line, or \<open>None\<close> for \<open>null\<close>\<close>
  "extractRelevantSection text terms =
     (let lines = split (CHR 0x0A) text;
          scored =
            map (\<lambda>(index, line).
                   (index, length (filter (\<lambda>term. str_includes (toLowerCase line) term) terms)))
                (zip [0 ..< length lines] lines);
          relevantLines = filter (\<lambda>(index, score). score > 0) scored
      in case sort_key (\<lambda>(index, score). - int score) relevantLines of
           [] \<Rightarrow> None
         | (bestIndex, bestScore) # _ \<Rightarrow>
             (let start = bestIndex - 15;
                  end' = min (length lines - 1) (bestIndex + 15)
              in Some (join [CHR 0x0A] (take (end' + 1 - start) (drop start lines)),
                       start + 1, end' + 1)))"

definition languageMap :: "(string \<times> string) list" where
  "languageMap =
    [(''ts'', ''typescript''), (''tsx'', ''typescript''), (''js'', ''javascript''),
     (''jsx'', ''javascript''), (''py'', ''python''), (''java'', ''java''), (''cs'', ''csharp''),
     (''go'', ''go''), (''rs'', ''rust''), (''php'', ''php''), (''rb'', ''ruby''),
     (''cpp'', ''cpp''), (''c'', ''c''), (''h'', ''c''), (''css'', ''css''), (''scss'', ''scss''),
     (''html'', ''html''), (''json'', ''json''), (''xml'', ''xml''), (''yaml'', ''yaml''),
     (''yml'', ''yaml''), (''md'', ''markdown''), (''sql'', ''sql''), (''sh'', ''bash''),
     (''dockerfile'', ''dockerfile'')]"

definition detectLanguage :: "string \<Rightarrow> string" where
  "detectLanguage fname =
     (let extension = toLowerCase (last (split (CHR ''.'') fname))
      in case map_of languageMap extension of None \<Rightarrow> ''text'' | Some l \<Rightarrow> l)"

definition determineContextType :: "string \<Rightarrow> string \<Rightarrow> ContextType" where
  "determineContextType fpath text =
     (let fileName = toLowerCase fpath;
          contentLower = toLowerCase text
      in if str_includes fileName ''test'' \<or> str_includes fileName ''spec'' then CtTest
         else if str_includes fileName ''config'' \<or> str_includes fileName ''.env''
                 \<or> str_includes fileName ''package.json'' then CtConfig
         else if str_includes fileName ''readme'' \<or> str_includes fileName ''.md''
              then CtDocumentation
         else if str_includes contentLower ''class ''
                 \<or> str_includes contentLower ''export class'' then CtClass
         else if str_includes contentLower ''interface ''
                 \<or> str_includes contentLower ''export interface'' then CtInterface
         else if str_includes contentLower ''function '' \<or> str_includes contentLower ''const ''
                 \<or> str_includes contentLower ''export function'' then CtFunction
         else if str_includes fileName ''component'' \<or> str_includes contentLower ''react''
                 \<or> str_includes contentLower ''jsx'' then CtComponent
         else CtFunction)"

definition slice0 :: "'a list \<Rightarrow> int \<Rightarrow> 'a list" where
  \<comment> \<open>\<open>xs.slice(0, k)\<close>: a negative \<open>k\<close> counts from the end of the array\<close>
  "slice0 xs k = (if k < 0 then take (nat (int (length xs) + k)) xs else take (nat k) xs)"

definition scoreFile :: "string \<Rightarrow> string list \<Rightarrow> CodeFile \<times> string option \<Rightarrow> CodeContext list" where
  \<comment> \<open>the body of the loop over files in \<open>searchCodeContext\<close>: the contexts it pushes
      (none or one). The second component is what \<open>fs.readFile\<close> gives; \<open>None\<close> is a
      read that throws, which the loop's \<open>catch\<close> skips.\<close>
  "scoreFile query terms entry =
     (case entry of
        (file, None) \<Rightarrow> []
      | (file, Some text) \<Rightarrow>
          (let score = calculateFileRelevance file text terms query
           in if score > 0.1 then
                (let ctx = \<lparr> filePath = relativePath file, fileName = name file,
                             repository = ''current-project'', content = text,
                             relevanceScore = score, lineNumbers = None,
                             language = detectLanguage (name file),
                             contextType = determineContextType (relativePath file) text \<rparr>
                 in if length text > 2000 then
                      (case extractRelevantSection text terms of
                         None \<Rightarrow> [ctx]
                       | Some (section, start, end') \<Rightarrow>
                           [ctx \<lparr> content := section, lineNumbers := Some (start, end') \<rparr>])
                    else [ctx])
              else []))"

definition searchCodeContext :: "(CodeFile \<times> string option) list \<Rightarrow> string \<Rightarrow> int \<Rightarrow> CodeSearchResult" where
  \<comment> \<open>The first argument is the corpus: the files \<open>getAllCodeFiles\<close> lists, each with
      the outcome of reading it. \<open>Array.prototype.sort\<close> is stable, as \<open>sort_key\<close> is.
      A failed read is caught inside the loop, so the outer \<open>catch\<close> is not reached.\<close>
  "searchCodeContext files query maxResults =
     (let terms = extractSearchTerms query
      in if length files = 0 then
           \<lparr> contexts = [], totalMatches = 0, searchTerms = terms, confidence = 0 \<rparr>
         else
           (let found = concat (map (scoreFile query terms) files);
                sorted = sort_key (\<lambda>ctx. - relevanceScore ctx) found;
                limitedContexts = slice0 sorted maxResults
            in \<lparr> contexts = limitedContexts, totalMatches = length found,
                 searchTerms = terms,
                 confidence = calculateSearchConfidence limitedContexts terms \<rparr>))"

section \<open>Analysis Orchestrator (\<open>issue-analysis.ts\<close>)\<close>

datatype IssueState = Open | Closed

record IssueMatch =
  matchId :: string
  matchTitle :: string
  matchBody :: string
  matchLabels :: "string list"
  matchState :: IssueState
  matchRepository :: string
  matchUrl :: string
  matchRelevanceScore :: real
  suggestedActions :: "string list"

record 's AnalysisResult =
  relevantIssues :: "IssueMatch list"
  codeSuggestions :: "'s list"
  codeContexts :: "CodeContext list"
  summary :: string
  analysisConfidence :: real

definition calculateConfidence ::
    "IssueMatch list \<Rightarrow> 's list \<Rightarrow> string list \<Rightarrow> CodeContext list option \<Rightarrow> real" where
  \<comment> \<open>\<open>None\<close> is the optional argument \<open>codeContexts\<close> left out\<close>
  "calculateConfidence issues suggestions keywords ctxs =
     (let c1 = 0 + min (real (length keywords) * 0.1) 0.3;
          c2 = c1 + min (real (length issues) * 0.15) 0.4;
          c3 = c2 + min (real (length suggestions) * 0.1) 0.3;
          highRelevanceIssues = filter (\<lambda>issue. matchRelevanceScore issue > 0.8) issues;
          c4 = c3 + real (length highRelevanceIssues) * 0.05;
          c5 =
            (case ctxs of
               None \<Rightarrow> c4
             | Some cs \<Rightarrow>
                 (if length cs > 0 then
                    (let c = c4 + min (real (length cs) * 0.1) 0.2;
                         highRelevanceContexts = filter (\<lambda>ctx. relevanceScore ctx > 0.5) cs
                     in c + real (length highRelevanceContexts) * 0.05)
                  else c4))
      in min c5 1.0)"

record 's AnalysisHelpers =
  extractKeywords :: "string \<Rightarrow> string list"
  determineContext :: "string \<Rightarrow> string list"
  findRelevantIssues :: "string list \<Rightarrow> string list \<Rightarrow> IssueMatch list"
  generateCodeSuggestions ::
    "string \<Rightarrow> string list \<Rightarrow> string list \<Rightarrow> IssueMatch list \<Rightarrow> 's list"
  generateSummary :: "string \<Rightarrow> IssueMatch list \<Rightarrow> 's list \<Rightarrow> CodeContext list \<Rightarrow> string"

definition analyzeUserStatement ::
    "'s AnalysisHelpers \<Rightarrow> (CodeFile \<times> string option) list \<Rightarrow> string \<Rightarrow> 's AnalysisResult" where
  \<comment> \<open>The keyword, issue-matching, suggestion and summary steps are taken as given
      functions: the confidence is computed from their results whatever these are.\<close>
  "analyzeUserStatement h files statement =
     (let keywords = extractKeywords h statement;
          context = determineContext h statement;
          issues = findRelevantIssues h keywords context;
          codeSearchResult = searchCodeContext files statement 5;
          ctxs = contexts codeSearchResult;
          suggestions = generateCodeSuggestions h statement keywords context issues;
          conf = calculateConfidence issues suggestions keywords (Some ctxs);
          summ = generateSummary h statement issues suggestions ctxs
      in \<lparr> relevantIssues = issues, codeSuggestions = suggestions, codeContexts = ctxs,
           summary = summ, analysisConfidence = conf \<rparr>)"

section \<open>Provider Client (\<open>integrations.ts\<close>, class \<open>GitHubService\<close>)\<close>

text \<open>
  The remote API is an oracle: each endpoint maps the number of requests already made
  in the current operation and the request's parameters to a response, so the remote
  may answer the same request differently over time. A service method takes the log
  of requests made so far and returns its outcome with the extended log. An
  exception is the \<open>Inl\<close> of a sum.
\<close>

datatype StateFilter = FOpen | FClosed | FAll

record ApiError =
  errStatus :: "nat option"
  errMessage :: string

datatype ApiLabel = LabelString string | LabelObject "string option" "string option"

record ApiIssue =
  apiId :: int
  apiNumber :: int
  apiTitle :: string
  apiBody :: "string option"
  apiState :: IssueState
  apiHtmlUrl :: string
  apiCreatedAt :: string
  apiUpdatedAt :: string
  apiLabels :: "ApiLabel list"

record ListForRepoParams =
  lfrOwner :: string
  lfrRepo :: "string option"
  lfrState :: StateFilter
  lfrPerPage :: nat
  lfrPage :: "nat option"

record GetContentParams =
  gcOwner :: string
  gcRepo :: "string option"
  gcPath :: string
  gcRef :: "string option"

record GetTreeParams =
  gtOwner :: string
  gtRepo :: "string option"
  gtTreeSha :: string
  gtRecursive :: string

record ApiTreeItem =
  atPath :: "string option"
  atMode :: "string option"
  atType :: string
  atSha :: "string option"
  atSize :: "nat option"
  atUrl :: "string option"

datatype Request =
    ListForRepo ListForRepoParams
  | GetContent GetContentParams
  | ReposGet string "string option"
  | GetTree GetTreeParams

record Octokit =
  issuesListForRepo :: "nat \<Rightarrow> ListForRepoParams \<Rightarrow> ApiError + ApiIssue list"
  reposGetContent :: "nat \<Rightarrow> GetContentParams \<Rightarrow> ApiError + string option"
  reposGet :: "nat \<Rightarrow> string \<Rightarrow> string option \<Rightarrow> ApiError + string"
  gitGetTree :: "nat \<Rightarrow> GetTreeParams \<Rightarrow> ApiError + ApiTreeItem list option"

record GitHubRepository =
  repoIdNumber :: int
  repoName :: string
  full_name :: string
  description :: "string option"
  html_url :: string
  clone_url :: string
  default_branch :: string

record GitHubIssue =
  issueIdNumber :: int
  issueNumber :: int
  issueTitle :: string
  issueBody :: "string option"
  issueState :: IssueState
  issueHtmlUrl :: string
  created_at :: string
  updated_at :: string
  issueLabels :: "(string \<times> string) list"

record GitHubTreeItem =
  itemPath :: string
  itemMode :: string
  itemType :: string
  itemSha :: string
  itemSize :: "nat option"
  itemUrl :: string

datatype JsError = Error string

definition orElse :: "string option \<Rightarrow> string \<Rightarrow> string" where
  \<comment> \<open>\<open>x || d\<close> for an optional string: the empty string is falsy too\<close>
  "orElse x d = (case x of None \<Rightarrow> d | Some s \<Rightarrow> if s = [] then d else s)"

definition ownerAndRepo :: "string \<Rightarrow> string \<times> string option" where
  \<comment> \<open>\<open>const [owner, repo] = fullName.split('/')\<close>; a missing second piece is
      \<open>undefined\<close>\<close>
  "ownerAndRepo fullName =
     (case split (CHR ''/'') fullName of
        [] \<Rightarrow> ([], None)
      | owner # rest \<Rightarrow> (owner, case rest of [] \<Rightarrow> None | r # _ \<Rightarrow> Some r))"

definition toGitHubIssue :: "ApiIssue \<Rightarrow> GitHubIssue" where
  "toGitHubIssue issue =
     \<lparr> issueIdNumber = apiId issue, issueNumber = apiNumber issue, issueTitle = apiTitle issue,
       issueBody = (case apiBody issue of None \<Rightarrow> None
                    | Some b \<Rightarrow> if b = [] then None else Some b),
       issueState = apiState issue, issueHtmlUrl = apiHtmlUrl issue,
       created_at = apiCreatedAt issue, updated_at = apiUpdatedAt issue,
       issueLabels =
         map (\<lambda>label. case label of
                  LabelString s \<Rightarrow> (s, [])
                | LabelObject n c \<Rightarrow> (orElse n [], orElse c []))
             (apiLabels issue) \<rparr>"

definition getIssues ::
    "Octokit \<Rightarrow> string \<Rightarrow> string option \<Rightarrow> StateFilter \<Rightarrow> Request list
      \<Rightarrow> (JsError + GitHubIssue list) \<times> Request list" where
  \<comment> \<open>the method has no page parameter and asks for 50 issues per page\<close>
  "getIssues api owner repo st reqs =
     (let params = \<lparr> lfrOwner = owner, lfrRepo = repo, lfrState = st, lfrPerPage = 50,
                      lfrPage = None \<rparr>
      in (case issuesListForRepo api (length reqs) params of
            Inl e \<Rightarrow> Inl (Error ''Failed to fetch issues'')
          | Inr data \<Rightarrow> Inr (map toGitHubIssue data),
          reqs @ [ListForRepo params]))"

definition getRepositoryTree ::
    "Octokit \<Rightarrow> string \<Rightarrow> string \<Rightarrow> Request list
      \<Rightarrow> (JsError + GitHubTreeItem list) \<times> Request list" where
  \<comment> \<open>A response without a \<open>tree\<close> array (\<open>None\<close>) makes \<open>data.tree.map\<close> throw, which
      the \<open>catch\<close> turns into the same error as a failed request.\<close>
  "getRepositoryTree api repoFullName branch reqs =
     (let (owner, repo) = ownerAndRepo repoFullName;
          params = \<lparr> gtOwner = owner, gtRepo = repo, gtTreeSha = branch,
                     gtRecursive = ''true'' \<rparr>
      in (case gitGetTree api (length reqs) params of
            Inl e \<Rightarrow> Inl (Error ''Failed to fetch repository tree'')
          | Inr None \<Rightarrow> Inl (Error ''Failed to fetch repository tree'')
          | Inr (Some tree) \<Rightarrow>
              Inr (map (\<lambda>item. \<lparr> itemPath = orElse (atPath item) [],
                                  itemMode = orElse (atMode item) [],
                                  itemType = atType item,
                                  itemSha = orElse (atSha item) [],
                                  itemSize = atSize item,
                                  itemUrl = orElse (atUrl item) [] \<rparr>) tree),
          reqs @ [GetTree params]))"

section \<open>Provider Client: file content with fallback to the default branch\<close>

datatype Thrown =
    ApiFailure ApiError
  | ContentMissing
  | NotInRepository

text \<open>
  What a \<open>catch\<close> clause of \<open>getFileContent\<close> can receive: a failed request (the
  client's error, with its HTTP status), \<open>new Error('File content not found')\<close>, or
  \<open>new Error('File not found in the repository')\<close>. The two \<open>Error\<close> objects have no
  \<open>status\<close>.
\<close>

definition thrownStatus :: "Thrown \<Rightarrow> nat option" where
  "thrownStatus t = (case t of ApiFailure e \<Rightarrow> errStatus e | _ \<Rightarrow> None)"

definition thrownMessage :: "Thrown \<Rightarrow> string" where
  "thrownMessage t =
     (case t of
        ApiFailure e \<Rightarrow> errMessage e
      | ContentMissing \<Rightarrow> ''File content not found''
      | NotInRepository \<Rightarrow> ''File not found in the repository'')"

definition truthy :: "string option \<Rightarrow> bool" where
  "truthy x = (case x of None \<Rightarrow> False | Some s \<Rightarrow> s \<noteq> [])"

definition fetchContent ::
    "(string \<Rightarrow> string) \<Rightarrow> Octokit \<Rightarrow> string \<Rightarrow> string option \<Rightarrow> string \<Rightarrow> string option
      \<Rightarrow> Request list \<Rightarrow> (Thrown + string option) \<times> Request list" where
  \<comment> \<open>The inner function of \<open>getFileContent\<close>; \<open>Inr None\<close> is its result \<open>null\<close>. The
      response is the \<open>content\<close> field of the data, if there is one. The first argument
      is the decoding \<open>Buffer.from(_, 'base64').toString('utf-8')\<close>.\<close>
  "fetchContent decode api owner repo p ref reqs =
     (let params = \<lparr> gcOwner = owner, gcRepo = repo, gcPath = p, gcRef = ref \<rparr>
      in (case reposGetContent api (length reqs) params of
            Inr None \<Rightarrow> Inl ContentMissing
          | Inr (Some c) \<Rightarrow> if c \<noteq> [] then Inr (Some (decode c)) else Inl ContentMissing
          | Inl e \<Rightarrow> if errStatus e = Some 404 \<and> truthy ref then Inr None
                     else Inl (ApiFailure e),
          reqs @ [GetContent params]))"

definition normalizeArgs ::
    "string \<Rightarrow> string \<Rightarrow> string option \<Rightarrow> string option
      \<Rightarrow> string \<times> string option \<times> string \<times> string option" where
  \<comment> \<open>the two call shapes \<open>(owner, repo, path, ref)\<close> and \<open>(repoFullName, path, sha)\<close>:
      the result is \<open>(owner, repo, path, refToUse)\<close>\<close>
  "normalizeArgs ownerOrFullName repoOrPath pathOrRef ref =
     (case (pathOrRef, ref) of
        (Some p, Some r) \<Rightarrow>
          (if p \<noteq> [] then (ownerOrFullName, Some repoOrPath, p, Some r)
           else (fst (ownerAndRepo ownerOrFullName), snd (ownerAndRepo ownerOrFullName),
                 repoOrPath, pathOrRef))
      | _ \<Rightarrow> (fst (ownerAndRepo ownerOrFullName), snd (ownerAndRepo ownerOrFullName),
               repoOrPath, pathOrRef))"

definition getFileContentBody ::
    "(string \<Rightarrow> string) \<Rightarrow> Octokit \<Rightarrow> string \<Rightarrow> string option \<Rightarrow> string \<Rightarrow> string option
      \<Rightarrow> Request list \<Rightarrow> (Thrown + string) \<times> Request list" where
  \<comment> \<open>the body of the outer \<open>try\<close>\<close>
  "getFileContentBody decode api owner repo p refToUse reqs =
     (case (if truthy refToUse then fetchContent decode api owner repo p refToUse reqs
            else (Inr None, reqs)) of
        (Inl t, reqs1) \<Rightarrow> (Inl t, reqs1)
      | (Inr (Some c), reqs1) \<Rightarrow> (Inr c, reqs1)
      | (Inr None, reqs1) \<Rightarrow>
          (case reposGet api (length reqs1) owner repo of
             Inl e \<Rightarrow> (Inl (ApiFailure e), reqs1 @ [ReposGet owner repo])
           | Inr branch \<Rightarrow>
               (case fetchContent decode api owner repo p (Some branch)
                       (reqs1 @ [ReposGet owner repo]) of
                  (Inl t, reqs2) \<Rightarrow> (Inl t, reqs2)
                | (Inr (Some c), reqs2) \<Rightarrow> (Inr c, reqs2)
                | (Inr None, reqs2) \<Rightarrow> (Inl NotInRepository, reqs2))))"

definition surfaceError :: "string \<Rightarrow> string option \<Rightarrow> Thrown \<Rightarrow> JsError" where
  \<comment> \<open>the outer \<open>catch\<close>\<close>
  "surfaceError p refToUse t =
     (if thrownStatus t = Some 404 then
        Error (''File not found at path: '' @ p
               @ (case refToUse of
                    None \<Rightarrow> []
                  | Some r \<Rightarrow> if r \<noteq> [] then '' (ref: '' @ r @ '')'' else []))
      else
        Error (''Failed to fetch file content: ''
               @ (if thrownMessage t \<noteq> [] then thrownMessage t else ''Unknown error'')))"

definition getFileContent ::
    "(string \<Rightarrow> string) \<Rightarrow> Octokit \<Rightarrow> string \<Rightarrow> string \<Rightarrow> string option \<Rightarrow> string option
      \<Rightarrow> Request list \<Rightarrow> (JsError + string) \<times> Request list" where
  "getFileContent decode api ownerOrFullName repoOrPath pathOrRef ref reqs =
     (case normalizeArgs ownerOrFullName repoOrPath pathOrRef ref of
        (owner, repo, p, refToUse) \<Rightarrow>
          (case getFileContentBody decode api owner repo p refToUse reqs of
             (Inr c, reqs') \<Rightarrow> (Inr c, reqs')
           | (Inl t, reqs') \<Rightarrow> (Inl (surfaceError p refToUse t), reqs')))"

section \<open>Cache Store (\<open>github-db.ts\<close>)\<close>

datatype FileType = TFile | TDir

datatype SyncStatus = Pending | Starting | Syncing | Completed | Failed

record GitHubFile =
  fileRepoId :: string
  path :: string
  fname :: string
  ftype :: FileType
  sha :: string
  fileSize :: "nat option"
  downloadUrl :: "string option"
  fileContent :: "string option"
  parentPath :: string
  fileLastSynced :: nat

record GitHubRepo =
  repoKey :: string
  repoDisplayName :: string
  fullName :: string
  defaultBranch :: string
  repoLastSynced :: nat
  totalFiles :: nat
  syncStatus :: SyncStatus

record GitHubIssueDB =
  issueId :: int
  repoId :: string
  number :: int
  title :: string
  body :: "string option"
  state :: IssueState
  htmlUrl :: string
  createdAt :: string
  updatedAt :: string
  closedAt :: "string option"
  authorLogin :: string
  authorAvatarUrl :: string
  assignees :: "string list"
  labels :: "(string \<times> string \<times> string option) list"
  milestone :: "(string \<times> string option \<times> string option) option"
  comments :: nat
  lastSynced :: nat

text \<open>
  The three Dexie tables. \<open>repos\<close> has the primary key \<open>id\<close>; \<open>files\<close> and \<open>issues\<close>
  have an auto-incremented key and are kept as the list of their rows in insertion
  order. The table operations are taken to succeed. Timestamps (\<open>new Date()\<close>) are
  readings of a clock that the caller passes in.
\<close>

record GitHubDatabase =
  dbRepos :: "string \<rightharpoonup> GitHubRepo"
  dbFiles :: "GitHubFile list"
  dbIssues :: "GitHubIssueDB list"

definition saveRepo :: "GitHubDatabase \<Rightarrow> GitHubRepo \<Rightarrow> GitHubDatabase" where
  "saveRepo db repo = db \<lparr> dbRepos := (dbRepos db)(repoKey repo \<mapsto> repo) \<rparr>"

definition saveFiles :: "GitHubDatabase \<Rightarrow> string \<Rightarrow> GitHubFile list \<Rightarrow> GitHubDatabase" where
  "saveFiles db rid fs =
     db \<lparr> dbFiles := filter (\<lambda>f. fileRepoId f \<noteq> rid) (dbFiles db) @ fs \<rparr>"

definition getRepoSyncStatus :: "GitHubDatabase \<Rightarrow> string \<Rightarrow> GitHubRepo option" where
  "getRepoSyncStatus db rid = dbRepos db rid"

definition updateRepoSyncStatus ::
    "GitHubDatabase \<Rightarrow> string \<Rightarrow> SyncStatus \<Rightarrow> nat option \<Rightarrow> nat \<Rightarrow> GitHubDatabase" where
  \<comment> \<open>\<open>Table.update\<close> changes the row with that key and does nothing when there is none\<close>
  "updateRepoSyncStatus db rid status count now =
     (case dbRepos db rid of
        None \<Rightarrow> db
      | Some r \<Rightarrow>
          (let r1 = r \<lparr> syncStatus := status, repoLastSynced := now \<rparr>;
               r2 = (case count of None \<Rightarrow> r1 | Some n \<Rightarrow> r1 \<lparr> totalFiles := n \<rparr>)
           in db \<lparr> dbRepos := (dbRepos db)(rid \<mapsto> r2) \<rparr>))"

definition saveIssues :: "GitHubDatabase \<Rightarrow> string \<Rightarrow> GitHubIssueDB list \<Rightarrow> GitHubDatabase" where
  "saveIssues db rid new =
     db \<lparr> dbIssues := filter (\<lambda>i. repoId i \<noteq> rid) (dbIssues db) @ new \<rparr>"

definition getIssuesCount :: "GitHubDatabase \<Rightarrow> string \<Rightarrow> nat \<times> nat \<times> nat" where
  \<comment> \<open>\<open>{open, closed, total}\<close>\<close>
  "getIssuesCount db rid =
     (let allIssues = filter (\<lambda>i. repoId i = rid) (dbIssues db)
      in (length (filter (\<lambda>i. state i = Open) allIssues),
          length (filter (\<lambda>i. state i = Closed) allIssues),
          length allIssues))"

section \<open>Issue Sync Orchestrator (\<open>github-issues-sync.ts\<close>)\<close>

fun showNat :: "nat \<Rightarrow> string" where
  "showNat n =
     (if n < 10 then [char_of (48 + n)] else showNat (n div 10) @ [char_of (48 + n mod 10)])"

declare showNat.simps [simp del]

definition showInt :: "int \<Rightarrow> string" where
  \<comment> \<open>\<open>Number.prototype.toString\<close> on an integer\<close>
  "showInt i = (if i < 0 then CHR ''-'' # showNat (nat (- i)) else showNat (nat i))"

definition toIntegerOrInfinity :: "real \<Rightarrow> int" where
  \<comment> \<open>the truncation toward zero that \<open>slice\<close> applies to its arguments\<close>
  "toIntegerOrInfinity x = (if x < 0 then \<lceil>x\<rceil> else \<lfloor>x\<rfloor>)"

record SyncOptions =
  syncOpen :: "bool option"
  syncClosed :: "bool option"
  maxIssues :: "real option"

record IssuesSyncProgress =
  progressRepoId :: string
  progressRepoName :: string
  currentPage :: nat
  totalPages :: nat
  issuesProcessed :: nat
  totalIssues :: nat
  currentState :: IssueState
  progressStatus :: SyncStatus
  progressError :: "string option"

text \<open>
  The state of the pagination loop: the local variables \<open>issues\<close> and \<open>page\<close>, the
  progress object, the requests made so far and the progress reports delivered to the
  callback so far.
\<close>

record PagState =
  pagIssues :: "GitHubIssue list"
  pagPage :: nat
  pagProgress :: IssuesSyncProgress
  pagRequests :: "Request list"
  pagEvents :: "IssuesSyncProgress list"

datatype 's Step = Break 's | Continue 's

definition fetchStep ::
    "Octokit \<Rightarrow> string \<Rightarrow> string option \<Rightarrow> StateFilter \<Rightarrow> real \<Rightarrow> PagState \<Rightarrow> PagState Step" where
  \<comment> \<open>one run of the body of \<open>while (issues.length < maxIssues)\<close>\<close>
  "fetchStep api owner repo st budget s =
     (let perPage = min 100 budget;
          (res, reqs) = getIssues api owner repo st (pagRequests s)
      in case res of
           Inl e \<Rightarrow> Break (s \<lparr> pagRequests := reqs \<rparr>)
         | Inr pageIssues \<Rightarrow>
             (if length pageIssues = 0 then Break (s \<lparr> pagRequests := reqs \<rparr>)
              else
                (let issues' =
                       pagIssues s
                       @ slice0 pageIssues
                           (toIntegerOrInfinity (budget - real (length (pagIssues s))));
                     progress' =
                       (pagProgress s) \<lparr> currentPage := pagPage s,
                                         issuesProcessed := length issues' \<rparr>;
                     s' = s \<lparr> pagIssues := issues', pagProgress := progress',
                              pagRequests := reqs,
                              pagEvents := pagEvents s @ [progress'] \<rparr>
                 in if real (length pageIssues) < perPage then Break s'
                    else Continue (s' \<lparr> pagPage := pagPage s + 1 \<rparr>))))"

fun fetchLoop ::
    "nat \<Rightarrow> Octokit \<Rightarrow> string \<Rightarrow> string option \<Rightarrow> StateFilter \<Rightarrow> real \<Rightarrow> PagState
      \<Rightarrow> PagState option" where
  \<comment> \<open>The loop with fuel: each test of the loop condition uses one unit, and \<open>None\<close>
      means the fuel ran out before the loop was left.\<close>
  "fetchLoop 0 api owner repo st budget s = None"
| "fetchLoop (Suc fuel) api owner repo st budget s =
     (if real (length (pagIssues s)) < budget then
        (case fetchStep api owner repo st budget s of
           Break s' \<Rightarrow> Some s'
         | Continue s' \<Rightarrow> fetchLoop fuel api owner repo st budget s')
      else Some s)"

definition fetchIssuesWithPagination ::
    "nat \<Rightarrow> Octokit \<Rightarrow> string \<Rightarrow> string option \<Rightarrow> StateFilter \<Rightarrow> real \<Rightarrow> IssuesSyncProgress
      \<Rightarrow> Request list \<Rightarrow> IssuesSyncProgress list \<Rightarrow> PagState option" where
  "fetchIssuesWithPagination fuel api owner repo st budget progress reqs events =
     fetchLoop fuel api owner repo st budget
       \<lparr> pagIssues = [], pagPage = 1, pagProgress = progress, pagRequests = reqs,
         pagEvents = events \<rparr>"

definition convertToDBIssue :: "nat \<Rightarrow> GitHubIssue \<Rightarrow> string \<Rightarrow> GitHubIssueDB" where
  "convertToDBIssue now issue rid =
     \<lparr> issueId = issueIdNumber issue, repoId = rid, number = issueNumber issue,
       title = issueTitle issue, body = issueBody issue, state = issueState issue,
       htmlUrl = issueHtmlUrl issue, createdAt = created_at issue,
       updatedAt = updated_at issue, closedAt = None, authorLogin = [],
       authorAvatarUrl = [], assignees = [],
       labels = map (\<lambda>(n, c). (n, c, None)) (issueLabels issue),
       milestone = None, comments = 0, lastSynced = now \<rparr>"

record IssuesSyncOutcome =
  outDb :: GitHubDatabase
  outRequests :: "Request list"
  outEvents :: "IssuesSyncProgress list"

definition syncRepositoryIssues ::
    "nat \<Rightarrow> Octokit \<Rightarrow> nat \<Rightarrow> GitHubDatabase \<Rightarrow> GitHubRepository \<Rightarrow> SyncOptions
      \<Rightarrow> IssuesSyncOutcome option" where
  \<comment> \<open>\<open>None\<close>: a pagination loop did not finish within the fuel. The \<open>catch\<close> of the
      method is not reached: the pagination catches its own errors and the store
      operations succeed.\<close>
  "syncRepositoryIssues fuel api now db repo options =
     (let syncOpen' = (case syncOpen options of None \<Rightarrow> True | Some b \<Rightarrow> b);
          syncClosed' = (case syncClosed options of None \<Rightarrow> False | Some b \<Rightarrow> b);
          maxIssues' = (case maxIssues options of None \<Rightarrow> 100 | Some m \<Rightarrow> m);
          rid = showInt (repoIdNumber repo);
          progress0 =
            \<lparr> progressRepoId = rid, progressRepoName = repoName repo, currentPage = 1,
              totalPages = 1, issuesProcessed = 0, totalIssues = 0, currentState = Open,
              progressStatus = Starting, progressError = None \<rparr>;
          (owner, rname) = ownerAndRepo (full_name repo);
          afterOpen =
            (if syncOpen' then
               (let p = progress0 \<lparr> currentState := Open, progressStatus := Syncing \<rparr>
                in map_option
                     (\<lambda>s. (map (\<lambda>issue. convertToDBIssue now issue rid) (pagIssues s),
                           pagProgress s, pagRequests s, pagEvents s))
                     (fetchIssuesWithPagination fuel api owner rname FOpen
                        (maxIssues' / (if syncClosed' then 2 else 1)) p [] [progress0, p]))
             else Some ([], progress0, [], [progress0]))
      in case afterOpen of
           None \<Rightarrow> None
         | Some (allIssues1, progress1, reqs1, events1) \<Rightarrow>
             (let afterClosed =
                    (if syncClosed' then
                       (let p = progress1 \<lparr> currentState := Closed, progressStatus := Syncing \<rparr>
                        in map_option
                             (\<lambda>s. (allIssues1
                                    @ map (\<lambda>issue. convertToDBIssue now issue rid) (pagIssues s),
                                   pagProgress s, pagRequests s, pagEvents s))
                             (fetchIssuesWithPagination fuel api owner rname FClosed
                                (maxIssues' / 2) p reqs1 (events1 @ [p])))
                     else Some (allIssues1, progress1, reqs1, events1))
              in case afterClosed of
                   None \<Rightarrow> None
                 | Some (allIssues, progress2, reqs2, events2) \<Rightarrow>
                     (let db' = saveIssues db rid allIssues;
                          progress3 =
                            progress2 \<lparr> progressStatus := Completed,
                                        totalIssues := length allIssues,
                                        issuesProcessed := length allIssues \<rparr>
                      in Some \<lparr> outDb = db', outRequests = reqs2,
                                outEvents = events2 @ [progress3] \<rparr>)))"

section \<open>File Sync Orchestrator (\<open>github-sync.ts\<close>)\<close>

record SyncProgress =
  spTotal :: nat
  spCompleted :: nat
  currentFile :: string
  spStatus :: SyncStatus
  spError :: "string option"

record FileSyncOutcome =
  fsResult :: "JsError + unit"
  fsDb :: GitHubDatabase
  fsRequests :: "Request list"
  fsEvents :: "SyncProgress list"

definition errorMessage :: "JsError \<Rightarrow> string" where
  "errorMessage e = (case e of Error m \<Rightarrow> m)"

definition getFileName :: "string \<Rightarrow> string" where
  "getFileName p = last (split (CHR ''/'') p)"

definition getParentPath :: "string \<Rightarrow> string" where
  "getParentPath p =
     (let parts = split (CHR ''/'') p
      in if length parts \<le> 1 then [] else join ''/'' (butlast parts))"

definition toGitHubFile :: "string \<Rightarrow> nat \<Rightarrow> GitHubTreeItem \<Rightarrow> GitHubFile" where
  "toGitHubFile rid now item =
     \<lparr> fileRepoId = rid, path = itemPath item, fname = getFileName (itemPath item),
       ftype = (if itemType item = ''tree'' then TDir else TFile), sha = itemSha item,
       fileSize = itemSize item,
       downloadUrl = (if itemType item = ''blob'' then Some (itemUrl item) else None),
       fileContent = None, parentPath = getParentPath (itemPath item),
       fileLastSynced = now \<rparr>"

definition processItem ::
    "string \<Rightarrow> nat \<Rightarrow> nat \<Rightarrow> GitHubFile list \<times> nat \<times> SyncProgress list \<Rightarrow> GitHubTreeItem
      \<Rightarrow> GitHubFile list \<times> nat \<times> SyncProgress list" where
  \<comment> \<open>the body of the loop over the tree, on the variables \<open>files\<close> and \<open>completed\<close> and
      the progress reports delivered so far\<close>
  "processItem rid now n acc item =
     (case acc of (fs, completed, events) \<Rightarrow>
        (fs @ [toGitHubFile rid now item], completed + 1,
         events @ [\<lparr> spTotal = n, spCompleted = completed + 1, currentFile = itemPath item,
                      spStatus = Syncing, spError = None \<rparr>]))"

definition syncRepository ::
    "Octokit \<Rightarrow> nat \<Rightarrow> GitHubDatabase \<Rightarrow> GitHubRepository \<Rightarrow> FileSyncOutcome" where
  \<comment> \<open>\<open>fsResult\<close> is \<open>Inl e\<close> when the method throws \<open>e\<close>. \<open>getRepositoryTree\<close> returns
      an array or throws, so the test \<open>if (!tree)\<close> never fires.\<close>
  "syncRepository api now db repo =
     (let rid = showInt (repoIdNumber repo);
          db1 = saveRepo db
                  \<lparr> repoKey = rid, repoDisplayName = repoName repo, fullName = full_name repo,
                    defaultBranch = default_branch repo, repoLastSynced = now,
                    totalFiles = 0, syncStatus = Syncing \<rparr>;
          (res, reqs) = getRepositoryTree api (full_name repo) (default_branch repo) []
      in case res of
           Inl e \<Rightarrow>
             \<lparr> fsResult = Inl e,
               fsDb = updateRepoSyncStatus db1 rid Failed None now,
               fsRequests = reqs,
               fsEvents = [\<lparr> spTotal = 0, spCompleted = 0, currentFile = [],
                             spStatus = Failed, spError = Some (errorMessage e) \<rparr>] \<rparr>
         | Inr tree \<Rightarrow>
             (let n = length tree;
                  start = \<lparr> spTotal = n, spCompleted = 0, currentFile = ''Starting sync...'',
                            spStatus = Syncing, spError = None \<rparr>;
                  (fs, completed, events) = foldl (processItem rid now n) ([], 0, [start]) tree;
                  db2 = saveFiles db1 rid fs;
                  db3 = updateRepoSyncStatus db2 rid Completed (Some (length fs)) now
              in \<lparr> fsResult = Inr (), fsDb = db3, fsRequests = reqs,
                   fsEvents = events
                     @ [\<lparr> spTotal = n, spCompleted = n, currentFile = ''Sync completed!'',
                           spStatus = Completed, spError = None \<rparr>] \<rparr>))"

section \<open>Tree Reconstructor (\<open>buildFileTree\<close> in \<open>github-db.ts\<close>)\<close>

text \<open>
  \<open>buildFileTree\<close> creates one node object per file and links the objects by pushing
  references onto \<open>children\<close> arrays that it reaches through \<open>pathMap\<close>. The objects live
  in a store: the address of a node is its position in the list of the nodes created
  so far, a \<open>children\<close> array is a list of addresses, and the returned array \<open>tree\<close> is
  the list of the addresses of the root nodes.
\<close>

record FileTreeNode =
  nodeName :: string
  nodePath :: string
  nodeType :: FileType
  nodeSha :: string
  nodeSize :: "nat option"
  nodeDownloadUrl :: "string option"
  children :: "nat list option"
  isExpanded :: bool

record BuildState =
  stHeap :: "FileTreeNode list"
  stPathMap :: "string \<rightharpoonup> nat"
  stTree :: "nat list"

definition isRootParent :: "string \<Rightarrow> bool" where
  \<comment> \<open>\<open>file.parentPath === '' || file.parentPath === '/'\<close>\<close>
  "isRootParent p = (p = [] \<or> p = ''/'')"

definition newNode :: "GitHubFile \<Rightarrow> FileTreeNode" where
  "newNode file =
     \<lparr> nodeName = fname file, nodePath = path file, nodeType = ftype file, nodeSha = sha file,
       nodeSize = fileSize file, nodeDownloadUrl = downloadUrl file,
       children = (if ftype file = TDir then Some [] else None), isExpanded = False \<rparr>"

definition insertNode :: "BuildState \<Rightarrow> GitHubFile \<Rightarrow> BuildState" where
  \<comment> \<open>the body of the loop \<open>for (const file of files)\<close>\<close>
  "insertNode st file =
     (let a = length (stHeap st);
          heap1 = stHeap st @ [newNode file];
          pm = (stPathMap st)(path file \<mapsto> a)
      in if isRootParent (parentPath file) then
           \<lparr> stHeap = heap1, stPathMap = pm, stTree = stTree st @ [a] \<rparr>
         else
           (case pm (parentPath file) of
              None \<Rightarrow> \<lparr> stHeap = heap1, stPathMap = pm, stTree = stTree st \<rparr>
            | Some q \<Rightarrow>
                (case children (heap1 ! q) of
                   None \<Rightarrow> \<lparr> stHeap = heap1, stPathMap = pm, stTree = stTree st \<rparr>
                 | Some cs \<Rightarrow>
                     \<lparr> stHeap = heap1 [q := (heap1 ! q) \<lparr> children := Some (cs @ [a]) \<rparr>],
                       stPathMap = pm, stTree = stTree st \<rparr>)))"

definition sortFiles :: "(string \<Rightarrow> 'k::linorder) \<Rightarrow> GitHubFile list \<Rightarrow> GitHubFile list" where
  \<comment> \<open>\<open>files.sort((a, b) => a.path.localeCompare(b.path))\<close>. The order of
      \<open>localeCompare\<close> is the host's collation; it is given by the collation key of a
      string, in a linear order. \<open>Array.prototype.sort\<close> is stable, as \<open>sort_key\<close> is.\<close>
  "sortFiles key fs = sort_key (\<lambda>f. key (path f)) fs"

definition buildFileTree :: "(string \<Rightarrow> 'k::linorder) \<Rightarrow> GitHubFile list \<Rightarrow> BuildState" where
  "buildFileTree key fs =
     foldl insertNode \<lparr> stHeap = [], stPathMap = Map.empty, stTree = [] \<rparr> (sortFiles key fs)"

definition codeUnitKey :: "string \<Rightarrow> string" where
  \<comment> \<open>the collation that compares strings character by character\<close>
  "codeUnitKey p = p"

definition childrenOf :: "BuildState \<Rightarrow> nat \<Rightarrow> nat list" where
  \<comment> \<open>the \<open>children\<close> array of the node at an address; empty for a node without one\<close>
  "childrenOf st a = (case children (stHeap st ! a) of None \<Rightarrow> [] | Some cs \<Rightarrow> cs)"

fun flattenFrom :: "nat \<Rightarrow> BuildState \<Rightarrow> nat \<Rightarrow> nat list" where
  \<comment> \<open>the addresses met by a depth-first walk from a node, parents before children;
      the first argument bounds the depth of the walk\<close>
  "flattenFrom 0 st a = []"
| "flattenFrom (Suc n) st a = a # concat (map (flattenFrom n st) (childrenOf st a))"

definition flatten :: "BuildState \<Rightarrow> nat list" where
  \<comment> \<open>the depth-first walk of the returned forest; a forest of \<open>n\<close> nodes has no
      branch longer than \<open>n\<close>\<close>
  "flatten st = concat (map (flattenFrom (length (stHeap st)) st) (stTree st))"

definition flattenPaths :: "BuildState \<Rightarrow> string list" where
  "flattenPaths st = map (\<lambda>a. nodePath (stHeap st ! a)) (flatten st)"

inductive reachable :: "BuildState \<Rightarrow> nat \<Rightarrow> bool" for st :: BuildState where
  root: "a \<in> set (stTree st) \<Longrightarrow> reachable st a"
| child: "reachable st k \<Longrightarrow> a \<in> set (childrenOf st k) \<Longrightarrow> reachable st a"

text \<open>
  The state of the loop after the first \<open>n\<close> files of the sorted list \<open>xs\<close>, written
  without the loop: \<open>pathMapAt xs n\<close> maps a path to the last of the first \<open>n\<close> files
  with that path, file \<open>j\<close> is pushed onto the children of node \<open>k\<close> when its parent
  path is not a root marker and \<open>pathMap\<close> gives \<open>k\<close> for it, and \<open>k\<close> has a children
  array.
\<close>

fun pathMapAt :: "GitHubFile list \<Rightarrow> nat \<Rightarrow> (string \<rightharpoonup> nat)" where
  "pathMapAt xs 0 = Map.empty"
| "pathMapAt xs (Suc n) = (pathMapAt xs n)(path (xs ! n) \<mapsto> n)"

definition attaches :: "GitHubFile list \<Rightarrow> nat \<Rightarrow> nat \<Rightarrow> bool" where
  "attaches xs j k =
     (\<not> isRootParent (parentPath (xs ! j))
      \<and> pathMapAt xs (Suc j) (parentPath (xs ! j)) = Some k)"

definition nodeAt :: "GitHubFile list \<Rightarrow> nat \<Rightarrow> nat \<Rightarrow> FileTreeNode" where
  "nodeAt xs n k =
     (newNode (xs ! k))
       \<lparr> children := (if ftype (xs ! k) = TDir
                       then Some (filter (\<lambda>j. attaches xs j k) [0 ..< n]) else None) \<rparr>"

definition stateAt :: "GitHubFile list \<Rightarrow> nat \<Rightarrow> BuildState" where
  "stateAt xs n =
     \<lparr> stHeap = map (nodeAt xs n) [0 ..< n], stPathMap = pathMapAt xs n,
       stTree = filter (\<lambda>j. isRootParent (parentPath (xs ! j))) [0 ..< n] \<rparr>"

definition parentInvariant :: "GitHubFile list \<Rightarrow> bool" where
  \<comment> \<open>the invariant of the data model: paths are unique, and a parent path that is
      not empty is the path of an entry of kind \<open>dir\<close> of the list (of exactly one, the
      paths being unique)\<close>
  "parentInvariant fs =
     (distinct (map path fs)
      \<and> list_all (\<lambda>f. parentPath f = []
                       \<or> list_ex (\<lambda>g. path g = parentPath f \<and> ftype g = TDir) fs) fs)"

definition startingProgress :: "GitHubRepository \<Rightarrow> IssuesSyncProgress" where
  \<comment> \<open>the progress object as \<open>syncRepositoryIssues\<close> creates it\<close>
  "startingProgress repo =
     \<lparr> progressRepoId = showInt (repoIdNumber repo), progressRepoName = repoName repo,
       currentPage = 1, totalPages = 1, issuesProcessed = 0, totalIssues = 0,
       currentState = Open, progressStatus = Starting, progressError = None \<rparr>"

section \<open>Example inputs\<close>

definition exampleCorpus :: "(CodeFile \<times> string option) list" where
  "exampleCorpus =
    [(\<lparr> fullPath = ''/p/README.md'', relativePath = ''README.md'', name = ''README.md'' \<rparr>,
      Some ''login token token token docs''),
     (\<lparr> fullPath = ''/p/auth/token.ts'', relativePath = ''auth/token.ts'', name = ''token.ts'' \<rparr>,
      Some ''const token = 1''),
     (\<lparr> fullPath = ''/p/auth/login.ts'', relativePath = ''auth/login.ts'', name = ''login.ts'' \<rparr>,
      Some ''function login(token) {}'')]"

definition exampleIssue :: "IssueState \<Rightarrow> int \<Rightarrow> ApiIssue" where
  "exampleIssue st n =
     \<lparr> apiId = 1000 + n, apiNumber = n, apiTitle = ''issue'', apiBody = None, apiState = st,
       apiHtmlUrl = ''https://example.org/issue'', apiCreatedAt = ''2024-01-01T00:00:00Z'',
       apiUpdatedAt = ''2024-01-02T00:00:00Z'', apiLabels = [] \<rparr>"

definition exampleIssues :: "IssueState \<Rightarrow> nat \<Rightarrow> nat \<Rightarrow> ApiIssue list" where
  \<comment> \<open>\<open>n\<close> issues in the given state, numbered from \<open>first\<close>\<close>
  "exampleIssues st first n = map (exampleIssue st) (map int [first ..< first + n])"

definition exampleRemote :: "nat \<Rightarrow> nat \<Rightarrow> Octokit" where
  \<comment> \<open>a remote with the given numbers of open and of closed issues, which answers
      every listing with the first page for the requested state; the other endpoints
      fail\<close>
  "exampleRemote nOpen nClosed =
     \<lparr> issuesListForRepo =
         (\<lambda>n params.
            Inr (take (lfrPerPage params)
                   (case lfrState params of
                      FOpen \<Rightarrow> exampleIssues Open 1 nOpen
                    | FClosed \<Rightarrow> exampleIssues Closed 101 nClosed
                    | FAll \<Rightarrow> exampleIssues Open 1 nOpen @ exampleIssues Closed 101 nClosed))),
       reposGetContent = (\<lambda>n params. Inl \<lparr> errStatus = Some 404, errMessage = ''Not Found'' \<rparr>),
       reposGet = (\<lambda>n owner repo. Inl \<lparr> errStatus = Some 404, errMessage = ''Not Found'' \<rparr>),
       gitGetTree = (\<lambda>n params. Inl \<lparr> errStatus = Some 404, errMessage = ''Not Found'' \<rparr>) \<rparr>"

definition exampleRepository :: GitHubRepository where
  "exampleRepository =
     \<lparr> repoIdNumber = 7, repoName = ''support'', full_name = ''acme/support'',
       description = None, html_url = ''https://example.org/acme/support'',
       clone_url = ''https://example.org/acme/support.git'', default_branch = ''main'' \<rparr>"

definition emptyDatabase :: GitHubDatabase where
  "emptyDatabase = \<lparr> dbRepos = Map.empty, dbFiles = [], dbIssues = [] \<rparr>"

definition bothStates :: "real \<Rightarrow> SyncOptions" where
  "bothStates m = \<lparr> syncOpen = Some True, syncClosed = Some True, maxIssues = Some m \<rparr>"

definition closedOnly :: "real \<Rightarrow> SyncOptions" where
  "closedOnly m = \<lparr> syncOpen = Some False, syncClosed = Some True, maxIssues = Some m \<rparr>"

definition persistedCounts :: "string \<Rightarrow> IssuesSyncOutcome option \<Rightarrow> (nat \<times> nat \<times> nat) option" where
  \<comment> \<open>\<open>getIssuesCount\<close> on the store a sync leaves, when the sync returns\<close>
  "persistedCounts rid out = map_option (\<lambda>r. getIssuesCount (outDb r) rid) out"

definition returns :: "'a option \<Rightarrow> bool" where
  \<comment> \<open>the run came back within its fuel\<close>
  "returns r = (case r of None \<Rightarrow> False | Some x \<Rightarrow> True)"

definition persistedIssues :: "IssuesSyncOutcome option \<Rightarrow> GitHubIssueDB list" where
  \<comment> \<open>the rows of the issue table a sync leaves, when the sync returns\<close>
  "persistedIssues out = (case out of None \<Rightarrow> [] | Some r \<Rightarrow> dbIssues (outDb r))"

definition cachedOpenIssue :: GitHubIssueDB where
  "cachedOpenIssue =
     convertToDBIssue 0 (toGitHubIssue (exampleIssue Open 1)) (showInt (repoIdNumber exampleRepository))"

definition databaseWithOpenIssue :: GitHubDatabase where
  "databaseWithOpenIssue = emptyDatabase \<lparr> dbIssues := [cachedOpenIssue] \<rparr>"

definition exampleProgress :: IssuesSyncProgress where
  "exampleProgress =
     \<lparr> progressRepoId = ''7'', progressRepoName = ''support'', currentPage = 1,
       totalPages = 1, issuesProcessed = 0, totalIssues = 0, currentState = Open,
       progressStatus = Syncing, progressError = None \<rparr>"

definition initialPagState :: PagState where
  "initialPagState =
     \<lparr> pagIssues = [], pagPage = 1, pagProgress = exampleProgress, pagRequests = [],
       pagEvents = [] \<rparr>"

definition firstPageRequest :: "string \<Rightarrow> string option \<Rightarrow> StateFilter \<Rightarrow> Request" where
  \<comment> \<open>the one request for issues that \<open>getIssues\<close> can make: 50 per page, no page\<close>
  "firstPageRequest owner repo st =
     ListForRepo \<lparr> lfrOwner = owner, lfrRepo = repo, lfrState = st, lfrPerPage = 50,
                   lfrPage = None \<rparr>"

definition stepState :: "PagState Step \<Rightarrow> PagState" where
  "stepState r = (case r of Break s \<Rightarrow> s | Continue s \<Rightarrow> s)"

definition continues :: "PagState Step \<Rightarrow> bool" where
  "continues r = (case r of Break s \<Rightarrow> False | Continue s \<Rightarrow> True)"

definition exampleTreeRemote :: Octokit where
  \<comment> \<open>a remote whose tree endpoint returns four entries\<close>
  "exampleTreeRemote =
     (exampleRemote 0 0)
       \<lparr> gitGetTree :=
           (\<lambda>n params.
              Inr (Some (map (\<lambda>(p, t). \<lparr> atPath = Some p, atMode = Some ''100644'', atType = t,
                                          atSha = Some ''abc'', atSize = None,
                                          atUrl = Some ''https://example.org/blob'' \<rparr>)
                          [(''src/utils/b.ts'', ''blob''), (''src'', ''tree''),
                           (''src/utils'', ''tree''), (''src/a.ts'', ''blob'')]))) \<rparr>"

definition repoStatus :: "GitHubDatabase \<Rightarrow> string \<Rightarrow> SyncStatus option" where
  "repoStatus db rid = map_option syncStatus (getRepoSyncStatus db rid)"

definition notFound :: ApiError where
  "notFound = \<lparr> errStatus = Some 404, errMessage = ''Not Found'' \<rparr>"

definition exampleContentRemote :: Octokit where
  \<comment> \<open>a remote that has the file on the default branch \<open>main\<close> only\<close>
  "exampleContentRemote =
     (exampleRemote 0 0)
       \<lparr> reposGetContent :=
           (\<lambda>n params. if gcRef params = Some ''main'' then Inr (Some ''aGVsbG8='')
                        else Inl notFound),
         reposGet := (\<lambda>n owner repo. Inr ''main'') \<rparr>"

definition contentParams ::
    "string \<Rightarrow> string option \<Rightarrow> string \<Rightarrow> string option \<Rightarrow> GetContentParams" where
  "contentParams owner repo p ref =
     \<lparr> gcOwner = owner, gcRepo = repo, gcPath = p, gcRef = ref \<rparr>"

definition exampleFile :: "string \<Rightarrow> string \<Rightarrow> FileType \<Rightarrow> GitHubFile" where
  "exampleFile p parent t =
     \<lparr> fileRepoId = ''7'', path = p, fname = getFileName p, ftype = t, sha = ''abc'',
       fileSize = None, downloadUrl = None, fileContent = None, parentPath = parent,
       fileLastSynced = 0 \<rparr>"

definition exampleFiles :: "GitHubFile list" where
  \<comment> \<open>the tree \<open>src\<close>, \<open>src/a.ts\<close>, \<open>src/utils\<close>, \<open>src/utils/b.ts\<close>, out of order\<close>
  "exampleFiles =
     [exampleFile ''src/utils/b.ts'' ''src/utils'' TFile, exampleFile ''src'' [] TDir,
      exampleFile ''src/utils'' ''src'' TDir, exampleFile ''src/a.ts'' ''src'' TFile]"

definition lateParentFiles :: "GitHubFile list" where
  \<comment> \<open>a file whose parent directory sorts after it\<close>
  "lateParentFiles = [exampleFile ''b'' ''z'' TFile, exampleFile ''z'' [] TDir]"

definition slashParentFiles :: "GitHubFile list" where
  \<comment> \<open>a file whose parent is the directory with the path \<open>/\<close>\<close>
  "slashParentFiles = [exampleFile ''/'' [] TDir, exampleFile ''/x'' ''/'' TFile]"

definition selfParentFiles :: "GitHubFile list" where
  \<comment> \<open>a directory that names itself as its parent\<close>
  "selfParentFiles = [exampleFile ''a'' ''a'' TDir]"

definition emptyPathFiles :: "GitHubFile list" where
  \<comment> \<open>a directory whose path is the empty string, next to a root file\<close>
  "emptyPathFiles = [exampleFile [] [] TDir, exampleFile ''x'' [] TFile]"

section \<open>Relevance scores and confidence are in the unit interval\<close>

lemma foldl_increasing:
  fixes s :: real
  assumes "\<And>a x. a \<le> f a x"
  shows "s \<le> foldl f s xs"
proof (induction xs arbitrary: s)
  case Nil
  show ?case by simp
next
  case (Cons x xs)
  have "s \<le> f s x" by (rule assms)
  also have "f s x \<le> foldl f (f s x) xs" by (rule Cons.IH)
  finally show ?case by simp
qed

lemma calculateFileRelevance_nonneg: "0 \<le> calculateFileRelevance file text terms q"
proof -
  let ?f1 = "\<lambda>score term.
     (let s = (if str_includes (toLowerCase (name file)) term then score + 0.3 else score)
      in if str_includes (toLowerCase (relativePath file)) term then s + 0.2 else s)"
  let ?f2 = "\<lambda>score term.
     (let matches = wordMatches term False (toLowerCase text)
      in if matches > 0 then score + min (real matches * 0.05) 0.2 else score)"
  have a: "(0::real) \<le> foldl ?f1 0 terms"
    by (rule foldl_increasing) (simp add: Let_def)
  have b: "foldl ?f1 0 terms \<le> foldl ?f2 (foldl ?f1 0 terms) terms"
    by (rule foldl_increasing) (simp add: Let_def)
  from a b have "0 \<le> foldl ?f2 (foldl ?f1 0 terms) terms" by linarith
  then show ?thesis
    by (simp add: calculateFileRelevance_def Let_def)
qed

lemma calculateFileRelevance_le_one: "calculateFileRelevance file text terms q \<le> 1"
  by (simp add: calculateFileRelevance_def Let_def)

lemma foldl_sum_nonneg:
  fixes s :: real
  assumes "0 \<le> s" and "\<forall>c \<in> set cs. 0 \<le> g c"
  shows "0 \<le> foldl (\<lambda>sum c. sum + g c) s cs"
  using assms by (induction cs arbitrary: s) auto

lemma calculateSearchConfidence_le_one: "calculateSearchConfidence ctxs terms \<le> 1"
  by (simp add: calculateSearchConfidence_def Let_def)

lemma calculateSearchConfidence_nonneg:
  assumes "\<forall>c \<in> set ctxs. 0 \<le> relevanceScore c"
  shows "0 \<le> calculateSearchConfidence ctxs terms"
proof (cases "length ctxs = 0")
  case True
  then show ?thesis by (simp add: calculateSearchConfidence_def)
next
  case False
  have s: "0 \<le> foldl (\<lambda>sum ctx. sum + relevanceScore ctx) 0 ctxs"
    by (rule foldl_sum_nonneg) (use assms in auto)
  then have avg: "0 \<le> foldl (\<lambda>sum ctx. sum + relevanceScore ctx) 0 ctxs / real (length ctxs)"
    by simp
  have m: "0 \<le> min (real (length ctxs) * 0.1) (0.3::real)" by simp
  from avg have "0 \<le> foldl (\<lambda>sum ctx. sum + relevanceScore ctx) 0 ctxs / real (length ctxs) * 0.4"
    by simp
  with m False show ?thesis
    by (simp add: calculateSearchConfidence_def Let_def min_def split: if_splits)
qed

lemma scoreFile_score:
  assumes "c \<in> set (scoreFile q terms entry)"
  shows "0.1 < relevanceScore c \<and> relevanceScore c \<le> 1"
proof -
  obtain fl t where e: "entry = (fl, t)" by (cases entry)
  show ?thesis
  proof (cases t)
    case None
    with e assms show ?thesis by (simp add: scoreFile_def)
  next
    case (Some body)
    with e assms have "relevanceScore c = calculateFileRelevance fl body terms q
        \<and> 0.1 < calculateFileRelevance fl body terms q"
      by (auto simp: scoreFile_def Let_def split: if_splits option.splits)
    then show ?thesis using calculateFileRelevance_le_one [of fl body terms q] by simp
  qed
qed

lemma set_slice0: "set (slice0 xs k) \<subseteq> set xs"
  by (auto simp: slice0_def dest: in_set_takeD)

lemma searchCodeContext_scores:
  assumes "c \<in> set (contexts (searchCodeContext files q m))"
  shows "0.1 < relevanceScore c \<and> relevanceScore c \<le> 1"
proof (cases "length files = 0")
  case True
  with assms show ?thesis by (simp add: searchCodeContext_def Let_def)
next
  case False
  with assms have "c \<in> set (slice0 (sort_key (\<lambda>ctx. - relevanceScore ctx)
      (concat (map (scoreFile q (extractSearchTerms q)) files))) m)"
    by (simp add: searchCodeContext_def Let_def)
  then have "c \<in> set (concat (map (scoreFile q (extractSearchTerms q)) files))"
    using set_slice0 by fastforce
  then obtain e where "c \<in> set (scoreFile q (extractSearchTerms q) e)" by auto
  then show ?thesis by (rule scoreFile_score)
qed

lemma searchCodeContext_confidence:
  "0 \<le> confidence (searchCodeContext files q m) \<and> confidence (searchCodeContext files q m) \<le> 1"
proof (cases "length files = 0")
  case True
  then show ?thesis by (simp add: searchCodeContext_def Let_def)
next
  case False
  let ?l = "contexts (searchCodeContext files q m)"
  have c: "confidence (searchCodeContext files q m) = calculateSearchConfidence ?l (extractSearchTerms q)"
    using False by (simp add: searchCodeContext_def Let_def)
  have "\<forall>c \<in> set ?l. 0 \<le> relevanceScore c"
    using searchCodeContext_scores [of _ files q m] by fastforce
  then have "0 \<le> calculateSearchConfidence ?l (extractSearchTerms q)"
    by (rule calculateSearchConfidence_nonneg)
  with c calculateSearchConfidence_le_one [of ?l "extractSearchTerms q"] show ?thesis by simp
qed

lemma calculateConfidence_bounds:
  "0 \<le> calculateConfidence issues suggestions keywords ctxs
   \<and> calculateConfidence issues suggestions keywords ctxs \<le> 1"
  by (simp add: calculateConfidence_def Let_def min_def split: option.splits)

text \<open>
  Claim C6. The relevance score that \<open>calculateFileRelevance\<close> computes for a file is in
  \<open>[0, 1]\<close>, for every file, content, term list and query; and the confidence that
  \<open>searchCodeContext\<close> and \<open>analyzeUserStatement\<close> return is in \<open>[0, 1]\<close>, for every
  corpus, query, result limit and statement (and whatever the keyword, issue and
  suggestion steps of the analysis return).
\<close>

theorem scores_and_confidence_in_unit_interval:
  "0 \<le> calculateFileRelevance file text terms query
   \<and> calculateFileRelevance file text terms query \<le> 1
   \<and> 0 \<le> confidence (searchCodeContext files query maxResults)
   \<and> confidence (searchCodeContext files query maxResults) \<le> 1
   \<and> 0 \<le> analysisConfidence (analyzeUserStatement h files statement)
   \<and> analysisConfidence (analyzeUserStatement h files statement) \<le> 1"
proof -
  have "analysisConfidence (analyzeUserStatement h files statement) =
      calculateConfidence
        (findRelevantIssues h (extractKeywords h statement) (determineContext h statement))
        (generateCodeSuggestions h statement (extractKeywords h statement)
           (determineContext h statement)
           (findRelevantIssues h (extractKeywords h statement) (determineContext h statement)))
        (extractKeywords h statement)
        (Some (contexts (searchCodeContext files statement 5)))"
    by (simp add: analyzeUserStatement_def Let_def)
  then show ?thesis
    using calculateFileRelevance_nonneg calculateFileRelevance_le_one
      searchCodeContext_confidence calculateConfidence_bounds
    by simp
qed

section \<open>Search results are ranked and limited\<close>

lemma slice0_sorted_wrt: "sorted_wrt P xs \<Longrightarrow> sorted_wrt P (slice0 xs k)"
  by (simp add: slice0_def sorted_wrt_take)

lemma slice0_length: "0 \<le> k \<Longrightarrow> int (length (slice0 xs k)) \<le> k"
  by (simp add: slice0_def)

lemma sort_key_descending:
  "sorted_wrt (\<lambda>a b. relevanceScore b \<le> relevanceScore a)
     (sort_key (\<lambda>ctx. - relevanceScore ctx) xs)"
proof -
  have "sorted (map (\<lambda>ctx. - relevanceScore ctx) (sort_key (\<lambda>ctx. - relevanceScore ctx) xs))"
    by (rule sorted_sort_key)
  then show ?thesis by (simp add: sorted_map)
qed

text \<open>
  Claim C7, as amended. For every corpus, query and \<open>maxResults\<close>, the contexts that
  \<open>searchCodeContext\<close> returns are in non-increasing order of \<open>relevanceScore\<close>; and
  for every \<open>maxResults \<ge> 0\<close> there are at most \<open>maxResults\<close> of them.
\<close>

theorem searchCodeContext_sorted_limited:
  "sorted_wrt (\<lambda>a b. relevanceScore b \<le> relevanceScore a)
     (contexts (searchCodeContext files query maxResults))
   \<and> (0 \<le> maxResults \<longrightarrow>
        int (length (contexts (searchCodeContext files query maxResults))) \<le> maxResults)"
  by (simp add: searchCodeContext_def Let_def slice0_sorted_wrt sort_key_descending slice0_length)

theorem searchCodeContext_sorted_limited_witness:
  "(0::int) \<le> 2
   \<and> map fileName (contexts (searchCodeContext exampleCorpus ''login token'' 2))
       = [''login.ts'', ''token.ts'']
   \<and> sorted_wrt (\<lambda>a b. relevanceScore b \<le> relevanceScore a)
        (contexts (searchCodeContext exampleCorpus ''login token'' 2))
   \<and> int (length (contexts (searchCodeContext exampleCorpus ''login token'' 2))) \<le> 2"
proof -
  have names: "map fileName (contexts (searchCodeContext exampleCorpus ''login token'' 2))
      = [''login.ts'', ''token.ts'']"
    by code_simp
  show ?thesis
    using searchCodeContext_sorted_limited [of exampleCorpus "''login token''" 2] names
    by simp
qed

text \<open>
  The claim as it was stated (for every \<open>maxResults\<close>) fails for a negative limit:
  \<open>slice(0, -1)\<close> drops the last of the three matches and returns two contexts.
\<close>

theorem searchCodeContext_negative_limit:
  "map fileName (contexts (searchCodeContext exampleCorpus ''login token'' (- 1)))
     = [''login.ts'', ''token.ts'']
   \<and> \<not> int (length (contexts (searchCodeContext exampleCorpus ''login token'' (- 1)))) \<le> - 1"
  by code_simp

section \<open>Pagination of the issue sync\<close>

lemma toIntegerOrInfinity_half [simp]: "toIntegerOrInfinity (1 / 2) = 0"
  by (simp add: toIntegerOrInfinity_def)

lemma toIntegerOrInfinity_eleven_halves [simp]: "toIntegerOrInfinity (11 / 2) = 5"
proof -
  have "\<lfloor>11 / 2 :: real\<rfloor> = 5" by linarith
  then show ?thesis by (simp add: toIntegerOrInfinity_def)
qed

lemma fetchStep_stuck:
  assumes "issuesListForRepo api (length (pagRequests s))
             \<lparr> lfrOwner = owner, lfrRepo = repo, lfrState = st, lfrPerPage = 50,
               lfrPage = None \<rparr> = Inr data"
    and "6 \<le> length data"
    and "length (pagIssues s) = 5"
  shows "\<exists>s'. fetchStep api owner repo st (11 / 2) s = Continue s' \<and> length (pagIssues s') = 5"
proof -
  have "(11 / 2 :: real) - 5 = 1 / 2" by simp
  moreover from assms(2) have "data \<noteq> []" by auto
  ultimately show ?thesis using assms
    by (simp add: fetchStep_def getIssues_def Let_def slice0_def)
qed

lemma fetchStep_first:
  assumes "issuesListForRepo api (length (pagRequests s))
             \<lparr> lfrOwner = owner, lfrRepo = repo, lfrState = st, lfrPerPage = 50,
               lfrPage = None \<rparr> = Inr data"
    and "6 \<le> length data"
    and "pagIssues s = []"
  shows "\<exists>s'. fetchStep api owner repo st (11 / 2) s = Continue s' \<and> length (pagIssues s') = 5"
proof -
  from assms(2) have "data \<noteq> []" by auto
  then show ?thesis using assms
    by (simp add: fetchStep_def getIssues_def Let_def slice0_def)
qed

lemma fetchLoop_stuck:
  assumes api: "\<And>n. \<exists>data. issuesListForRepo api n
             \<lparr> lfrOwner = owner, lfrRepo = repo, lfrState = st, lfrPerPage = 50,
               lfrPage = None \<rparr> = Inr data \<and> 6 \<le> length data"
  shows "length (pagIssues s) = 5 \<Longrightarrow> fetchLoop fuel api owner repo st (11 / 2) s = None"
proof (induction fuel arbitrary: s)
  case 0
  show ?case by simp
next
  case (Suc fuel)
  from api obtain data where
    d: "issuesListForRepo api (length (pagRequests s))
          \<lparr> lfrOwner = owner, lfrRepo = repo, lfrState = st, lfrPerPage = 50,
            lfrPage = None \<rparr> = Inr data" "6 \<le> length data"
    by blast
  from fetchStep_stuck [OF d Suc.prems] obtain s' where
    s': "fetchStep api owner repo st (11 / 2) s = Continue s'" "length (pagIssues s') = 5"
    by blast
  from Suc.IH [OF s'(2)] s'(1) Suc.prems show ?case by simp
qed

lemma fetchLoop_diverges:
  assumes api: "\<And>n. \<exists>data. issuesListForRepo api n
             \<lparr> lfrOwner = owner, lfrRepo = repo, lfrState = st, lfrPerPage = 50,
               lfrPage = None \<rparr> = Inr data \<and> 6 \<le> length data"
    and "pagIssues s = []"
  shows "fetchLoop fuel api owner repo st (11 / 2) s = None"
proof (cases fuel)
  case 0
  then show ?thesis by simp
next
  case (Suc k)
  from api obtain data where
    d: "issuesListForRepo api (length (pagRequests s))
          \<lparr> lfrOwner = owner, lfrRepo = repo, lfrState = st, lfrPerPage = 50,
            lfrPage = None \<rparr> = Inr data" "6 \<le> length data"
    by blast
  from fetchStep_first [OF d assms(2)] obtain s' where
    s': "fetchStep api owner repo st (11 / 2) s = Continue s'" "length (pagIssues s') = 5"
    by blast
  have "fetchLoop k api owner repo st (11 / 2) s' = None"
    using api s'(2) by (rule fetchLoop_stuck)
  with s'(1) Suc assms(2) show ?thesis by simp
qed

lemma exampleRemote_answers:
  "\<exists>data. issuesListForRepo (exampleRemote 6 20) n
             \<lparr> lfrOwner = owner, lfrRepo = repo, lfrState = FOpen, lfrPerPage = 50,
               lfrPage = None \<rparr> = Inr data \<and> 6 \<le> length data"
  by (simp add: exampleRemote_def exampleIssues_def)


lemma ownerAndRepo_example: "ownerAndRepo (full_name exampleRepository) = (''acme'', Some ''support'')"
  by code_simp

text \<open>
  Claim C4 (termination of the pagination loop within \<open>ceil(maxIssues / pageSize) + 1\<close>
  iterations, for every \<open>maxIssues > 0\<close>). The loop does not terminate for the budget
  \<open>11 / 2\<close>, which \<open>syncRepositoryIssues\<close> passes for \<open>maxIssues = 11\<close> when both states
  are requested: against a remote that lists six open issues, the first iteration keeps
  five issues, and every later one keeps none (\<open>slice(0, 0.5)\<close>) while the page is not
  shorter than \<open>perPage = 5.5\<close>. No amount of fuel lets the loop, or the sync, return.
\<close>

theorem pagination_diverges_on_odd_budget:
  "fetchIssuesWithPagination fuel (exampleRemote 6 20) ''acme'' (Some ''support'') FOpen (11 / 2)
     exampleProgress [] [] = None
   \<and> syncRepositoryIssues fuel (exampleRemote 6 20) now db exampleRepository (bothStates 11) = None"
proof -
  have d: "fetchIssuesWithPagination fuel (exampleRemote 6 20) ''acme'' (Some ''support'') FOpen
      (11 / 2) p rs es = None" for p rs es
    unfolding fetchIssuesWithPagination_def
    by (rule fetchLoop_diverges) (simp_all add: exampleRemote_answers)
  show ?thesis
    by (simp add: d syncRepositoryIssues_def bothStates_def ownerAndRepo_example Let_def)
qed

lemma toIntegerOrInfinity_five [simp]: "toIntegerOrInfinity 5 = 5"
  by (simp add: toIntegerOrInfinity_def)

lemma fetch_first_page_fills_five:
  assumes "issuesListForRepo api (length reqs)
             \<lparr> lfrOwner = owner, lfrRepo = repo, lfrState = st, lfrPerPage = 50,
               lfrPage = None \<rparr> = Inr data"
    and "5 \<le> length data"
    and "2 \<le> fuel"
  shows "\<exists>s. fetchIssuesWithPagination fuel api owner repo st 5 progress reqs events = Some s
           \<and> pagIssues s = take 5 (map toGitHubIssue data)
           \<and> pagRequests s = reqs @ [firstPageRequest owner repo st]"
proof -
  from assms(3) obtain f where fuel: "fuel = Suc (Suc f)"
    by (metis Suc_le_D numeral_2_eq_2 Suc_le_mono)
  from assms(2) have ne: "data \<noteq> []" by auto
  let ?s0 = "\<lparr> pagIssues = [], pagPage = 1, pagProgress = progress, pagRequests = reqs,
         pagEvents = events \<rparr>"
  obtain s' where step: "fetchStep api owner repo st 5 ?s0 = Continue s'"
      and issues: "pagIssues s' = take 5 (map toGitHubIssue data)"
      and reqs: "pagRequests s' = reqs @ [firstPageRequest owner repo st]"
    using assms(1,2) ne
    by (simp add: fetchStep_def getIssues_def Let_def slice0_def firstPageRequest_def)
  have len: "length (pagIssues s') = 5" using issues assms(2) by simp
  have "fetchLoop fuel api owner repo st 5 ?s0 = Some s'"
    using step len by (simp add: fuel)
  with issues reqs show ?thesis by (simp add: fetchIssuesWithPagination_def)
qed

lemma convertToDBIssue_fields [simp]:
  "repoId (convertToDBIssue now issue rid) = rid"
  "state (convertToDBIssue now issue rid) = issueState issue"
  by (simp_all add: convertToDBIssue_def)

lemma toGitHubIssue_state [simp]: "issueState (toGitHubIssue i) = apiState i"
  by (simp add: toGitHubIssue_def)

lemma getIssuesCount_saveIssues:
  assumes "\<forall>i \<in> set new. repoId i = rid"
  shows "getIssuesCount (saveIssues db rid new) rid =
           (length (filter (\<lambda>i. state i = Open) new),
            length (filter (\<lambda>i. state i = Closed) new), length new)"
proof -
  have a: "filter (\<lambda>i. repoId i = rid) (filter (\<lambda>i. repoId i \<noteq> rid) (dbIssues db)) = []"
    by (simp add: filter_empty_conv)
  have b: "filter (\<lambda>i. repoId i = rid) new = new"
    using assms by (simp add: filter_id_conv)
  show ?thesis by (simp add: getIssuesCount_def saveIssues_def a b Let_def)
qed

lemma count_state_take:
  assumes "\<forall>i \<in> set data. apiState i = st"
  shows "length (filter (\<lambda>i. state i = st')
            (map (\<lambda>issue. convertToDBIssue now issue rid) (take k (map toGitHubIssue data))))
         = (if st = st' then min k (length data) else 0)"
proof -
  have "\<forall>i \<in> set (take k data). apiState i = st"
    using assms by (auto dest: in_set_takeD)
  then have "filter (\<lambda>i. state i = st')
            (map (\<lambda>issue. convertToDBIssue now issue rid) (map toGitHubIssue (take k data)))
        = (if st = st' then map (\<lambda>issue. convertToDBIssue now issue rid) (map toGitHubIssue (take k data)) else [])"
    by (auto simp: filter_map o_def filter_id_conv filter_empty_conv)
  then show ?thesis by (simp add: take_map min.commute)
qed

text \<open>
  Claim C2, as amended. For every call of \<open>syncRepositoryIssues\<close> with \<open>syncOpen = true\<close>,
  \<open>syncClosed = true\<close> and \<open>maxIssues = 10\<close>, against a remote whose listing of open
  issues has 6 issues and whose listing of closed issues has 20, the sync returns and
  the store then holds, for that repository, exactly 5 open and exactly 5 closed
  issues: the budget is split evenly and each state is capped at \<open>maxIssues / 2\<close>.
\<close>

theorem sync_both_states_budget_ten:
  assumes opens: "\<And>n. issuesListForRepo api n
             \<lparr> lfrOwner = fst (ownerAndRepo (full_name repo)),
               lfrRepo = snd (ownerAndRepo (full_name repo)), lfrState = FOpen,
               lfrPerPage = 50, lfrPage = None \<rparr> = Inr opens"
    and closeds: "\<And>n. issuesListForRepo api n
             \<lparr> lfrOwner = fst (ownerAndRepo (full_name repo)),
               lfrRepo = snd (ownerAndRepo (full_name repo)), lfrState = FClosed,
               lfrPerPage = 50, lfrPage = None \<rparr> = Inr closeds"
    and "length opens = 6" and "\<forall>i \<in> set opens. apiState i = Open"
    and "length closeds = 20" and "\<forall>i \<in> set closeds. apiState i = Closed"
    and fuel: "2 \<le> fuel"
  shows "\<exists>out. syncRepositoryIssues fuel api now db repo (bothStates 10) = Some out
           \<and> getIssuesCount (outDb out) (showInt (repoIdNumber repo)) = (5, 5, 10)"
proof -
  obtain owner rname where o: "ownerAndRepo (full_name repo) = (owner, rname)"
    by (cases "ownerAndRepo (full_name repo)")
  let ?rid = "showInt (repoIdNumber repo)"
  let ?conv = "map (\<lambda>issue. convertToDBIssue now issue ?rid)"
  have lo: "5 \<le> length opens" and lc: "5 \<le> length closeds" using assms by simp_all
  have f1: "\<exists>s. fetchIssuesWithPagination fuel api owner rname FOpen 5 p rs es = Some s
           \<and> pagIssues s = take 5 (map toGitHubIssue opens)" for p rs es
    using fetch_first_page_fills_five [OF _ lo fuel, of api rs owner rname FOpen p es] opens o
    by auto
  have f2: "\<exists>s. fetchIssuesWithPagination fuel api owner rname FClosed 5 p rs es = Some s
           \<and> pagIssues s = take 5 (map toGitHubIssue closeds)" for p rs es
    using fetch_first_page_fills_five [OF _ lc fuel, of api rs owner rname FClosed p es] closeds o
    by auto
  let ?p0 = "\<lparr> progressRepoId = ?rid, progressRepoName = repoName repo, currentPage = 1,
              totalPages = 1, issuesProcessed = 0, totalIssues = 0, currentState = Open,
              progressStatus = Starting, progressError = None \<rparr>"
  let ?p1 = "?p0 \<lparr> currentState := Open, progressStatus := Syncing \<rparr>"
  from f1 [of ?p1 "[]" "[?p0, ?p1]"] obtain s1 where
    s1: "fetchIssuesWithPagination fuel api owner rname FOpen 5 ?p1 [] [?p0, ?p1] = Some s1"
        "pagIssues s1 = take 5 (map toGitHubIssue opens)"
    by blast
  let ?p2 = "(pagProgress s1) \<lparr> currentState := Closed, progressStatus := Syncing \<rparr>"
  from f2 [of ?p2 "pagRequests s1" "pagEvents s1 @ [?p2]"] obtain s2 where
    s2: "fetchIssuesWithPagination fuel api owner rname FClosed 5 ?p2 (pagRequests s1)
           (pagEvents s1 @ [?p2]) = Some s2"
        "pagIssues s2 = take 5 (map toGitHubIssue closeds)"
    by blast
  let ?all = "?conv (take 5 (map toGitHubIssue opens)) @ ?conv (take 5 (map toGitHubIssue closeds))"
  have run: "\<exists>out. syncRepositoryIssues fuel api now db repo (bothStates 10) = Some out
      \<and> outDb out = saveIssues db ?rid ?all"
    using s1 s2 by (simp add: syncRepositoryIssues_def bothStates_def o Let_def)
  have rid: "\<forall>i \<in> set ?all. repoId i = ?rid" by auto
  have c1: "length (filter (\<lambda>i. state i = Open) (?conv (take 5 (map toGitHubIssue opens)))) = 5"
    using count_state_take [OF assms(4), of Open now ?rid 5] assms(3) by simp
  have c2: "length (filter (\<lambda>i. state i = Closed) (?conv (take 5 (map toGitHubIssue opens)))) = 0"
    using count_state_take [OF assms(4), of Closed now ?rid 5] by simp
  have c3: "length (filter (\<lambda>i. state i = Open) (?conv (take 5 (map toGitHubIssue closeds)))) = 0"
    using count_state_take [OF assms(6), of Open now ?rid 5] by simp
  have c4: "length (filter (\<lambda>i. state i = Closed) (?conv (take 5 (map toGitHubIssue closeds)))) = 5"
    using count_state_take [OF assms(6), of Closed now ?rid 5] assms(5) by simp
  have cnt: "getIssuesCount (saveIssues db ?rid ?all) ?rid = (5, 5, 10)"
    using c1 c2 c3 c4 assms(3,5)
    by (simp add: getIssuesCount_saveIssues [OF rid])
  from run cnt show ?thesis by auto
qed


lemma length_exampleIssues [simp]: "length (exampleIssues st first n) = n"
  by (simp add: exampleIssues_def)

lemma state_exampleIssues: "\<forall>i \<in> set (exampleIssues st first n). apiState i = st"
  by (auto simp: exampleIssues_def exampleIssue_def)

theorem sync_both_states_budget_ten_witness:
  "length (exampleIssues Open 1 6) = 6 \<and> length (exampleIssues Closed 101 20) = 20
   \<and> (2::nat) \<le> 2
   \<and> (\<exists>out. syncRepositoryIssues 2 (exampleRemote 6 20) 0 emptyDatabase exampleRepository
               (bothStates 10) = Some out
            \<and> getIssuesCount (outDb out) (showInt (repoIdNumber exampleRepository)) = (5, 5, 10))"
proof -
  have "\<exists>out. syncRepositoryIssues 2 (exampleRemote 6 20) 0 emptyDatabase exampleRepository
               (bothStates 10) = Some out
            \<and> getIssuesCount (outDb out) (showInt (repoIdNumber exampleRepository)) = (5, 5, 10)"
  proof (rule sync_both_states_budget_ten
      [where opens = "exampleIssues Open 1 6" and closeds = "exampleIssues Closed 101 20"])
    show "issuesListForRepo (exampleRemote 6 20) n
            \<lparr> lfrOwner = fst (ownerAndRepo (full_name exampleRepository)),
              lfrRepo = snd (ownerAndRepo (full_name exampleRepository)), lfrState = FOpen,
              lfrPerPage = 50, lfrPage = None \<rparr> = Inr (exampleIssues Open 1 6)" for n
      by (simp add: exampleRemote_def)
    show "issuesListForRepo (exampleRemote 6 20) n
            \<lparr> lfrOwner = fst (ownerAndRepo (full_name exampleRepository)),
              lfrRepo = snd (ownerAndRepo (full_name exampleRepository)), lfrState = FClosed,
              lfrPerPage = 50, lfrPage = None \<rparr> = Inr (exampleIssues Closed 101 20)" for n
      by (simp add: exampleRemote_def)
    show "\<forall>i \<in> set (exampleIssues Open 1 6). apiState i = Open"
      by (rule state_exampleIssues)
    show "\<forall>i \<in> set (exampleIssues Closed 101 20). apiState i = Closed"
      by (rule state_exampleIssues)
  qed simp_all
  then show ?thesis by simp
qed

text \<open>
  The claim as it was stated (exactly 6 open issues persisted) fails on this remote:
  5 open issues are persisted.
\<close>

theorem sync_both_states_persists_five_open:
  "persistedCounts ''7''
     (syncRepositoryIssues 5 (exampleRemote 6 20) 0 emptyDatabase exampleRepository
        (bothStates 10)) = Some (5, 5, 10)
   \<and> (5::nat) \<noteq> 6"
  by code_simp

section \<open>The issue sync replaces the repository's cached issues\<close>

lemma fetchStep_requests:
  "pagRequests (stepState (fetchStep api owner repo st budget s))
     = pagRequests s @ [firstPageRequest owner repo st]"
  by (simp add: fetchStep_def getIssues_def firstPageRequest_def stepState_def Let_def
      split: sum.splits)

lemma fetchStep_issues:
  "pagIssues (stepState (fetchStep api owner repo st budget s)) = pagIssues s
   \<or> (\<exists>data k. issuesListForRepo api (length (pagRequests s))
                    \<lparr> lfrOwner = owner, lfrRepo = repo, lfrState = st, lfrPerPage = 50,
                      lfrPage = None \<rparr> = Inr data
        \<and> pagIssues (stepState (fetchStep api owner repo st budget s))
            = pagIssues s @ slice0 (map toGitHubIssue data) k)"
  by (auto simp: fetchStep_def getIssues_def stepState_def Let_def split: sum.splits)

lemma fetchStep_provenance:
  assumes "\<forall>i \<in> set (pagIssues s). \<exists>n data.
             issuesListForRepo api n
               \<lparr> lfrOwner = owner, lfrRepo = repo, lfrState = st, lfrPerPage = 50,
                 lfrPage = None \<rparr> = Inr data \<and> i \<in> toGitHubIssue ` set data"
  shows "\<forall>i \<in> set (pagIssues (stepState (fetchStep api owner repo st budget s))). \<exists>n data.
             issuesListForRepo api n
               \<lparr> lfrOwner = owner, lfrRepo = repo, lfrState = st, lfrPerPage = 50,
                 lfrPage = None \<rparr> = Inr data \<and> i \<in> toGitHubIssue ` set data"
proof -
  from fetchStep_issues [of api owner repo st budget s]
  consider "pagIssues (stepState (fetchStep api owner repo st budget s)) = pagIssues s"
    | data k where "issuesListForRepo api (length (pagRequests s))
                    \<lparr> lfrOwner = owner, lfrRepo = repo, lfrState = st, lfrPerPage = 50,
                      lfrPage = None \<rparr> = Inr data"
        "pagIssues (stepState (fetchStep api owner repo st budget s))
            = pagIssues s @ slice0 (map toGitHubIssue data) k"
    by blast
  then show ?thesis
  proof cases
    case 1
    with assms show ?thesis by simp
  next
    case 2
    have "set (slice0 (map toGitHubIssue data) k) \<subseteq> toGitHubIssue ` set data"
      using set_slice0 [of "map toGitHubIssue data" k] by simp
    with 2 assms show ?thesis by (auto simp del: ex_simps) blast+
  qed
qed

lemma fetchLoop_provenance:
  "fetchLoop fuel api owner repo st budget s = Some s' \<Longrightarrow>
   \<forall>i \<in> set (pagIssues s). \<exists>n data.
             issuesListForRepo api n
               \<lparr> lfrOwner = owner, lfrRepo = repo, lfrState = st, lfrPerPage = 50,
                 lfrPage = None \<rparr> = Inr data \<and> i \<in> toGitHubIssue ` set data \<Longrightarrow>
   set (pagRequests s) \<subseteq> {firstPageRequest owner repo st} \<Longrightarrow>
   (\<forall>i \<in> set (pagIssues s'). \<exists>n data.
             issuesListForRepo api n
               \<lparr> lfrOwner = owner, lfrRepo = repo, lfrState = st, lfrPerPage = 50,
                 lfrPage = None \<rparr> = Inr data \<and> i \<in> toGitHubIssue ` set data)
   \<and> set (pagRequests s') \<subseteq> {firstPageRequest owner repo st}"
proof (induction fuel arbitrary: s)
  case 0
  then show ?case by simp
next
  case (Suc fuel)
  show ?case
  proof (cases "real (length (pagIssues s)) < budget")
    case False
    with Suc.prems show ?thesis by simp
  next
    case True
    let ?r = "fetchStep api owner repo st budget s"
    have p: "\<forall>i \<in> set (pagIssues (stepState ?r)). \<exists>n data.
             issuesListForRepo api n
               \<lparr> lfrOwner = owner, lfrRepo = repo, lfrState = st, lfrPerPage = 50,
                 lfrPage = None \<rparr> = Inr data \<and> i \<in> toGitHubIssue ` set data"
      using Suc.prems(2) by (rule fetchStep_provenance)
    have q: "set (pagRequests (stepState ?r)) \<subseteq> {firstPageRequest owner repo st}"
      using Suc.prems(3) by (simp add: fetchStep_requests)
    show ?thesis
    proof (cases ?r)
      case (Break t)
      with True Suc.prems(1) have "s' = t" by simp
      with Break p q show ?thesis by (simp add: stepState_def)
    next
      case (Continue t)
      with True Suc.prems(1) have "fetchLoop fuel api owner repo st budget t = Some s'" by simp
      from Suc.IH [OF this] Continue p q show ?thesis by (simp add: stepState_def)
    qed
  qed
qed

text \<open>
  Claim C3, as amended. When \<open>syncRepositoryIssues\<close> runs with \<open>syncClosed = true\<close> and
  \<open>syncOpen = false\<close> and returns, the store holds for that repository exactly the
  issues fetched in that run, and the rows of other repositories as before: the
  replace covers the whole repository, so the previously cached issues of the
  repository, the open ones too, are deleted. The issues fetched in the run are the
  result of the pagination for the state \<open>closed\<close> with the budget \<open>maxIssues / 2\<close>: all
  requests of the run are listings of the closed issues, and every fetched issue
  comes from the provider's answer to such a listing.
\<close>

theorem closed_only_sync_replaces_all:
  assumes "syncRepositoryIssues fuel api now db repo (closedOnly m) = Some out"
  shows "\<exists>s.
           fetchIssuesWithPagination fuel api (fst (ownerAndRepo (full_name repo)))
             (snd (ownerAndRepo (full_name repo))) FClosed (m / 2)
             ((startingProgress repo) \<lparr> currentState := Closed, progressStatus := Syncing \<rparr>)
             []
             [startingProgress repo,
              (startingProgress repo) \<lparr> currentState := Closed, progressStatus := Syncing \<rparr>]
             = Some s
           \<and> dbIssues (outDb out) =
               filter (\<lambda>i. repoId i \<noteq> showInt (repoIdNumber repo)) (dbIssues db)
               @ map (\<lambda>issue. convertToDBIssue now issue (showInt (repoIdNumber repo)))
                   (pagIssues s)
           \<and> filter (\<lambda>i. repoId i = showInt (repoIdNumber repo)) (dbIssues (outDb out)) =
               map (\<lambda>issue. convertToDBIssue now issue (showInt (repoIdNumber repo)))
                 (pagIssues s)
           \<and> outRequests out = pagRequests s
           \<and> set (pagRequests s)
               \<subseteq> {firstPageRequest (fst (ownerAndRepo (full_name repo)))
                     (snd (ownerAndRepo (full_name repo))) FClosed}
           \<and> (\<forall>i \<in> set (pagIssues s). \<exists>n data.
                 issuesListForRepo api n
                   \<lparr> lfrOwner = fst (ownerAndRepo (full_name repo)),
                     lfrRepo = snd (ownerAndRepo (full_name repo)), lfrState = FClosed,
                     lfrPerPage = 50, lfrPage = None \<rparr> = Inr data
                 \<and> i \<in> toGitHubIssue ` set data)"
proof -
  obtain owner rname where o: "ownerAndRepo (full_name repo) = (owner, rname)"
    by (cases "ownerAndRepo (full_name repo)")
  let ?rid = "showInt (repoIdNumber repo)"
  let ?p = "(startingProgress repo) \<lparr> currentState := Closed, progressStatus := Syncing \<rparr>"
  let ?conv = "map (\<lambda>issue. convertToDBIssue now issue ?rid)"
  from assms obtain s where
    f: "fetchIssuesWithPagination fuel api owner rname FClosed (m / 2) ?p []
          [startingProgress repo, ?p] = Some s"
    and d: "dbIssues (outDb out) =
       filter (\<lambda>i. repoId i \<noteq> ?rid) (dbIssues db) @ ?conv (pagIssues s)"
    and r: "outRequests out = pagRequests s"
    by (auto simp: syncRepositoryIssues_def closedOnly_def o Let_def saveIssues_def
        startingProgress_def split: option.splits)
  have e: "filter (\<lambda>i. repoId i = ?rid)
       (filter (\<lambda>i. repoId i \<noteq> ?rid) (dbIssues db) @ ?conv (pagIssues s))
     = ?conv (pagIssues s)"
    by (simp add: filter_empty_conv filter_id_conv)
  from f have "fetchLoop fuel api owner rname FClosed (m / 2)
       \<lparr> pagIssues = [], pagPage = 1, pagProgress = ?p, pagRequests = [],
         pagEvents = [startingProgress repo, ?p] \<rparr> = Some s"
    by (simp add: fetchIssuesWithPagination_def)
  from fetchLoop_provenance [OF this]
  have pr: "(\<forall>i \<in> set (pagIssues s). \<exists>n data.
             issuesListForRepo api n
               \<lparr> lfrOwner = owner, lfrRepo = rname, lfrState = FClosed, lfrPerPage = 50,
                 lfrPage = None \<rparr> = Inr data \<and> i \<in> toGitHubIssue ` set data)
      \<and> set (pagRequests s) \<subseteq> {firstPageRequest owner rname FClosed}"
    by simp
  from f d r e pr show ?thesis by (simp add: o)
qed

theorem closed_only_sync_replaces_all_witness:
  "returns (syncRepositoryIssues 5 (exampleRemote 6 20) 0 databaseWithOpenIssue exampleRepository
     (closedOnly 10))
   \<and> persistedIssues (syncRepositoryIssues 5 (exampleRemote 6 20) 0 databaseWithOpenIssue
        exampleRepository (closedOnly 10))
      = map (\<lambda>issue. convertToDBIssue 0 issue (showInt (repoIdNumber exampleRepository)))
          (map toGitHubIssue (exampleIssues Closed 101 5))
   \<and> (\<exists>s. fetchIssuesWithPagination 5 (exampleRemote 6 20)
              (fst (ownerAndRepo (full_name exampleRepository)))
              (snd (ownerAndRepo (full_name exampleRepository))) FClosed (10 / 2)
              ((startingProgress exampleRepository)
                 \<lparr> currentState := Closed, progressStatus := Syncing \<rparr>)
              []
              [startingProgress exampleRepository,
               (startingProgress exampleRepository)
                 \<lparr> currentState := Closed, progressStatus := Syncing \<rparr>]
              = Some s
            \<and> persistedIssues (syncRepositoryIssues 5 (exampleRemote 6 20) 0
                 databaseWithOpenIssue exampleRepository (closedOnly 10))
               = filter (\<lambda>i. repoId i \<noteq> showInt (repoIdNumber exampleRepository))
                   (dbIssues databaseWithOpenIssue)
                 @ map (\<lambda>issue. convertToDBIssue 0 issue
                          (showInt (repoIdNumber exampleRepository)))
                     (pagIssues s))"
proof -
  let ?run = "syncRepositoryIssues 5 (exampleRemote 6 20) 0 databaseWithOpenIssue
     exampleRepository (closedOnly 10)"
  have r: "returns ?run" by code_simp
  have ev: "persistedIssues ?run
      = map (\<lambda>issue. convertToDBIssue 0 issue (showInt (repoIdNumber exampleRepository)))
          (map toGitHubIssue (exampleIssues Closed 101 5))"
    by code_simp
  from r obtain out where out: "?run = Some out"
    by (auto simp: returns_def split: option.splits)
  then have p: "persistedIssues ?run = dbIssues (outDb out)"
    by (simp add: persistedIssues_def)
  have ex: "\<exists>s. fetchIssuesWithPagination 5 (exampleRemote 6 20)
              (fst (ownerAndRepo (full_name exampleRepository)))
              (snd (ownerAndRepo (full_name exampleRepository))) FClosed (10 / 2)
              ((startingProgress exampleRepository)
                 \<lparr> currentState := Closed, progressStatus := Syncing \<rparr>)
              []
              [startingProgress exampleRepository,
               (startingProgress exampleRepository)
                 \<lparr> currentState := Closed, progressStatus := Syncing \<rparr>]
              = Some s
            \<and> persistedIssues ?run
               = filter (\<lambda>i. repoId i \<noteq> showInt (repoIdNumber exampleRepository))
                   (dbIssues databaseWithOpenIssue)
                 @ map (\<lambda>issue. convertToDBIssue 0 issue
                          (showInt (repoIdNumber exampleRepository)))
                     (pagIssues s)"
    using closed_only_sync_replaces_all [OF out] unfolding p
    by (elim exE conjE) (intro exI conjI, assumption+)
  from r ev ex show ?thesis by (intro conjI)
qed

text \<open>
  The claim as it was stated fails: a store that holds one open issue of the
  repository holds none after a closed-only sync.
\<close>

theorem closed_only_sync_deletes_cached_open_issue:
  "getIssuesCount databaseWithOpenIssue ''7'' = (1, 0, 1)
   \<and> persistedCounts ''7''
       (syncRepositoryIssues 5 (exampleRemote 6 20) 0 databaseWithOpenIssue exampleRepository
          (closedOnly 10)) = Some (0, 5, 5)"
  by code_simp

section \<open>Every iteration of the pagination makes the same request\<close>

text \<open>
  Claim C5 (each iteration asks the provider for the next page). \<open>getIssues\<close> takes no
  page, and the loop's \<open>page\<close> counter only goes into the progress report: on a run with
  two iterations (budget \<open>11 / 2\<close>, six open issues on the remote) both iterations go
  on, both send the same request, with no page index, and the counter has reached 3.
\<close>

theorem two_iterations_same_request:
  "continues (fetchStep (exampleRemote 6 20) ''acme'' (Some ''support'') FOpen (11 / 2)
      initialPagState)
   \<and> continues (fetchStep (exampleRemote 6 20) ''acme'' (Some ''support'') FOpen (11 / 2)
        (stepState (fetchStep (exampleRemote 6 20) ''acme'' (Some ''support'') FOpen (11 / 2)
           initialPagState)))
   \<and> pagRequests
        (stepState (fetchStep (exampleRemote 6 20) ''acme'' (Some ''support'') FOpen (11 / 2)
           (stepState (fetchStep (exampleRemote 6 20) ''acme'' (Some ''support'') FOpen (11 / 2)
              initialPagState))))
      = [firstPageRequest ''acme'' (Some ''support'') FOpen,
         firstPageRequest ''acme'' (Some ''support'') FOpen]
   \<and> pagPage
        (stepState (fetchStep (exampleRemote 6 20) ''acme'' (Some ''support'') FOpen (11 / 2)
           (stepState (fetchStep (exampleRemote 6 20) ''acme'' (Some ''support'') FOpen (11 / 2)
              initialPagState)))) = 3"
  by code_simp

section \<open>The pagination ends for whole-number budgets\<close>

lemma toIntegerOrInfinity_nat_diff:
  "l < b \<Longrightarrow> toIntegerOrInfinity (real b - real l) = int (b - l)"
proof -
  assume "l < b"
  then have "real b - real l = real (b - l)" by simp
  then show ?thesis by (simp add: toIntegerOrInfinity_def del: of_nat_diff)
qed

lemma fetchStep_continue_progress:
  assumes c: "fetchStep api owner repo st (real b) s = Continue s'"
    and l: "length (pagIssues s) < b"
  shows "min (length (pagIssues s) + min 100 b) b \<le> length (pagIssues s')
         \<and> length (pagRequests s') = Suc (length (pagRequests s))"
proof -
  obtain res reqs where g: "getIssues api owner repo st (pagRequests s) = (res, reqs)"
    by (cases "getIssues api owner repo st (pagRequests s)")
  then have rl: "length reqs = Suc (length (pagRequests s))"
    by (auto simp: getIssues_def Let_def)
  from c g obtain pageIssues where p: "res = Inr pageIssues"
    by (cases res) (auto simp: fetchStep_def Let_def)
  have m: "min 100 (real b) = real (min 100 b)" by simp
  from c g p have full: "min 100 b \<le> length pageIssues"
    and s': "pagIssues s' = pagIssues s @ slice0 pageIssues (toIntegerOrInfinity (real b - real (length (pagIssues s))))"
    and r': "pagRequests s' = reqs"
    unfolding fetchStep_def Let_def m
    by (auto split: if_splits simp del: of_nat_min)
  from s' l have "length (pagIssues s') = length (pagIssues s) + min (length pageIssues) (b - length (pagIssues s))"
    by (simp add: toIntegerOrInfinity_nat_diff slice0_def)
  with full l r' rl show ?thesis by simp
qed

lemma fetchStep_requests_length:
  "length (pagRequests (stepState (fetchStep api owner repo st budget s)))
     = Suc (length (pagRequests s))"
  by (simp add: fetchStep_requests)

lemma fetchLoop_integer_budget:
  assumes P: "0 < b"
  shows "b \<le> length (pagIssues s) + f * min 100 b \<Longrightarrow>
         \<exists>s'. fetchLoop (Suc f) api owner repo st (real b) s = Some s'
              \<and> length (pagRequests s') \<le> length (pagRequests s) + f"
proof (induction f arbitrary: s)
  case 0
  then show ?case by simp
next
  case (Suc f)
  show ?case
  proof (cases "length (pagIssues s) < b")
    case False
    then show ?thesis by simp
  next
    case True
    show ?thesis
    proof (cases "fetchStep api owner repo st (real b) s")
      case (Break s')
      with fetchStep_requests_length [of api owner repo st "real b" s]
      have "length (pagRequests s') = Suc (length (pagRequests s))"
        by (simp add: stepState_def)
      with True Break show ?thesis by simp
    next
      case (Continue s')
      from fetchStep_continue_progress [OF Continue True]
      have g: "min (length (pagIssues s) + min 100 b) b \<le> length (pagIssues s')"
        and r: "length (pagRequests s') = Suc (length (pagRequests s))"
        by simp_all
      from g Suc.prems have "b \<le> length (pagIssues s') + f * min 100 b"
        by (auto simp: min_def split: if_splits)
      from Suc.IH [OF this] obtain s'' where
        "fetchLoop (Suc f) api owner repo st (real b) s' = Some s''"
        "length (pagRequests s'') \<le> length (pagRequests s') + f"
        by blast
      with True Continue r show ?thesis by simp
    qed
  qed
qed

text \<open>
  For a budget that is a positive whole number the loop does end, whatever the provider
  answers: \<open>ceil(budget / perPage) + 1\<close> tests of the loop condition suffice, and at
  most \<open>ceil(budget / perPage)\<close> requests are made.
\<close>

lemma fetchIssuesWithPagination_integer_budget_terminates:
  assumes "0 < b"
  shows "\<exists>s'. fetchIssuesWithPagination (Suc (nat \<lceil>real b / real (min 100 b)\<rceil>)) api owner repo st
                 (real b) progress reqs events = Some s'
              \<and> length (pagRequests s') \<le> length reqs + nat \<lceil>real b / real (min 100 b)\<rceil>"
proof -
  let ?f = "nat \<lceil>real b / real (min 100 b)\<rceil>"
  from assms have p: "0 < min 100 b" by simp
  have c: "real b / real (min 100 b) \<le> real ?f" by linarith
  from p have "0 < real (min 100 b)" by simp
  from iffD1 [OF pos_divide_le_eq [OF this] c]
  have "real b \<le> real (?f * min 100 b)" by simp
  then have "b \<le> ?f * min 100 b" by (simp only: of_nat_le_iff)
  then show ?thesis
    unfolding fetchIssuesWithPagination_def
    using fetchLoop_integer_budget [OF assms, of "\<lparr> pagIssues = [], pagPage = 1,
      pagProgress = progress, pagRequests = reqs, pagEvents = events \<rparr>" ?f api owner repo st]
    by simp
qed

section \<open>A failed tree fetch aborts the file sync\<close>

text \<open>
  Claim C8. For every call of \<open>syncRepository\<close> in which the fetch of the repository
  tree from the Provider Client fails with an exception \<open>e\<close>, the sync aborts at once:
  the repository's record gets the sync status \<open>error\<close>, one progress report is
  delivered, with status \<open>error\<close> (and the message of \<open>e\<close>), and \<open>e\<close> is thrown to
  the caller. Nothing else happens: the cached files and issues are as before, and
  the tree request is the only request made.
\<close>

theorem syncRepository_fetch_failure:
  assumes "fst (getRepositoryTree api (full_name repo) (default_branch repo) []) = Inl e"
  shows "fsResult (syncRepository api now db repo) = Inl e
         \<and> repoStatus (fsDb (syncRepository api now db repo)) (showInt (repoIdNumber repo))
             = Some Failed
         \<and> fsEvents (syncRepository api now db repo)
             = [\<lparr> spTotal = 0, spCompleted = 0, currentFile = [], spStatus = Failed,
                  spError = Some (errorMessage e) \<rparr>]
         \<and> dbFiles (fsDb (syncRepository api now db repo)) = dbFiles db
         \<and> dbIssues (fsDb (syncRepository api now db repo)) = dbIssues db
         \<and> length (fsRequests (syncRepository api now db repo)) = 1"
proof -
  obtain res reqs where
    g: "getRepositoryTree api (full_name repo) (default_branch repo) [] = (res, reqs)"
    by (cases "getRepositoryTree api (full_name repo) (default_branch repo) []")
  with assms have r: "res = Inl e" by simp
  have l: "length reqs = 1"
    using g by (auto simp: getRepositoryTree_def Let_def split: prod.splits)
  show ?thesis
    by (simp add: syncRepository_def g r l Let_def repoStatus_def getRepoSyncStatus_def
        updateRepoSyncStatus_def saveRepo_def)
qed

theorem syncRepository_fetch_failure_witness:
  "fst (getRepositoryTree (exampleRemote 0 0) (full_name exampleRepository)
          (default_branch exampleRepository) [])
     = Inl (Error ''Failed to fetch repository tree'')
   \<and> fsResult (syncRepository (exampleRemote 0 0) 3 emptyDatabase exampleRepository)
       = Inl (Error ''Failed to fetch repository tree'')
   \<and> repoStatus (fsDb (syncRepository (exampleRemote 0 0) 3 emptyDatabase exampleRepository))
        (showInt (repoIdNumber exampleRepository)) = Some Failed
   \<and> fsEvents (syncRepository (exampleRemote 0 0) 3 emptyDatabase exampleRepository)
       = [\<lparr> spTotal = 0, spCompleted = 0, currentFile = [], spStatus = Failed,
            spError = Some ''Failed to fetch repository tree'' \<rparr>]"
proof -
  have h: "fst (getRepositoryTree (exampleRemote 0 0) (full_name exampleRepository)
          (default_branch exampleRepository) [])
     = Inl (Error ''Failed to fetch repository tree'')"
    by code_simp
  from syncRepository_fetch_failure [OF h, of 3 emptyDatabase] h show ?thesis
    by (simp add: errorMessage_def)
qed

section \<open>File content: one retry on the default branch\<close>

text \<open>
  Claim C9, as amended. For every \<open>getFileContent\<close> call given a non-empty ref: if
  fetching the file at that ref returns not-found (status 404), the implementation
  looks up the repository, and
  \<^item> when the look-up succeeds, it retries exactly once, against the default branch
    (the requests made are the fetch at the ref, the look-up, and the fetch at the
    default branch), returns that content on success, and raises the final
    not-found error (\<open>File not found in the repository\<close>, surfaced as a failure to
    fetch) when the retry returns not-found too;
  \<^item> when the look-up fails, no retry is made and the look-up's failure is raised
    (as \<open>File not found at path\<close> when its status is 404).
  The final not-found error is raised only when both the attempt at the ref and the
  attempt at the default branch return not-found.
\<close>

theorem getFileContent_fallback:
  assumes args: "normalizeArgs a b c d = (owner, repo, p, Some r)" and r: "r \<noteq> []"
  shows
    "(\<forall>e. reposGetContent api 0 (contentParams owner repo p (Some r)) = Inl e
          \<and> errStatus e = Some 404 \<longrightarrow>
        (\<forall>branch. reposGet api 1 owner repo = Inr branch \<longrightarrow>
           snd (getFileContent decode api a b c d []) =
             [GetContent (contentParams owner repo p (Some r)),
              ReposGet owner repo,
              GetContent (contentParams owner repo p (Some branch))]
           \<and> (\<forall>t. reposGetContent api 2 (contentParams owner repo p (Some branch))
                   = Inr (Some t) \<and> t \<noteq> [] \<longrightarrow>
                 fst (getFileContent decode api a b c d []) = Inr (decode t))
           \<and> (\<forall>e2. reposGetContent api 2 (contentParams owner repo p (Some branch))
                    = Inl e2 \<and> errStatus e2 = Some 404 \<and> branch \<noteq> [] \<longrightarrow>
                 fst (getFileContent decode api a b c d []) =
                   Inl (Error ''Failed to fetch file content: File not found in the repository'')))
        \<and> (\<forall>e1. reposGet api 1 owner repo = Inl e1 \<longrightarrow>
              snd (getFileContent decode api a b c d []) =
                [GetContent (contentParams owner repo p (Some r)), ReposGet owner repo]
              \<and> fst (getFileContent decode api a b c d []) =
                  Inl (surfaceError p (Some r) (ApiFailure e1))))
     \<and> (fst (getFileContentBody decode api owner repo p (Some r) []) = Inl NotInRepository \<longrightarrow>
          (\<exists>e. reposGetContent api 0 (contentParams owner repo p (Some r)) = Inl e
                \<and> errStatus e = Some 404)
          \<and> (\<exists>branch e2. reposGet api 1 owner repo = Inr branch
                \<and> reposGetContent api 2 (contentParams owner repo p (Some branch)) = Inl e2
                \<and> errStatus e2 = Some 404))"
proof -
  have t: "truthy (Some r)" using r by (simp add: truthy_def)
  have A: "(\<forall>e. reposGetContent api 0 (contentParams owner repo p (Some r)) = Inl e
          \<and> errStatus e = Some 404 \<longrightarrow>
        (\<forall>branch. reposGet api 1 owner repo = Inr branch \<longrightarrow>
           snd (getFileContent decode api a b c d []) =
             [GetContent (contentParams owner repo p (Some r)),
              ReposGet owner repo,
              GetContent (contentParams owner repo p (Some branch))]
           \<and> (\<forall>t. reposGetContent api 2 (contentParams owner repo p (Some branch))
                   = Inr (Some t) \<and> t \<noteq> [] \<longrightarrow>
                 fst (getFileContent decode api a b c d []) = Inr (decode t))
           \<and> (\<forall>e2. reposGetContent api 2 (contentParams owner repo p (Some branch))
                    = Inl e2 \<and> errStatus e2 = Some 404 \<and> branch \<noteq> [] \<longrightarrow>
                 fst (getFileContent decode api a b c d []) =
                   Inl (Error ''Failed to fetch file content: File not found in the repository'')))
        \<and> (\<forall>e1. reposGet api 1 owner repo = Inl e1 \<longrightarrow>
              snd (getFileContent decode api a b c d []) =
                [GetContent (contentParams owner repo p (Some r)), ReposGet owner repo]
              \<and> fst (getFileContent decode api a b c d []) =
                  Inl (surfaceError p (Some r) (ApiFailure e1))))"
    using t
    by (auto simp: getFileContent_def args getFileContentBody_def fetchContent_def Let_def
        numeral_2_eq_2 truthy_def surfaceError_def thrownStatus_def thrownMessage_def
        contentParams_def
        split: sum.splits option.splits)
  have B: "fst (getFileContentBody decode api owner repo p (Some r) []) = Inl NotInRepository \<longrightarrow>
          (\<exists>e. reposGetContent api 0 (contentParams owner repo p (Some r)) = Inl e
                \<and> errStatus e = Some 404)
          \<and> (\<exists>branch e2. reposGet api 1 owner repo = Inr branch
                \<and> reposGetContent api 2 (contentParams owner repo p (Some branch)) = Inl e2
                \<and> errStatus e2 = Some 404)"
    using t
    by (auto simp: getFileContentBody_def fetchContent_def Let_def numeral_2_eq_2
        contentParams_def
        split: sum.splits option.splits if_splits)
  from A B show ?thesis by blast
qed

theorem getFileContent_fallback_witness:
  "normalizeArgs ''acme/support'' ''README.md'' (Some ''abc'') None
     = (''acme'', Some ''support'', ''README.md'', Some ''abc'')
   \<and> ''abc'' \<noteq> []
   \<and> reposGetContent exampleContentRemote 0
        (contentParams ''acme'' (Some ''support'') ''README.md'' (Some ''abc'')) = Inl notFound
   \<and> errStatus notFound = Some 404
   \<and> reposGet exampleContentRemote 1 ''acme'' (Some ''support'') = Inr ''main''
   \<and> snd (getFileContent id exampleContentRemote ''acme/support'' ''README.md'' (Some ''abc'')
            None [])
       = [GetContent (contentParams ''acme'' (Some ''support'') ''README.md'' (Some ''abc'')),
          ReposGet ''acme'' (Some ''support''),
          GetContent (contentParams ''acme'' (Some ''support'') ''README.md'' (Some ''main''))]
   \<and> fst (getFileContent id exampleContentRemote ''acme/support'' ''README.md'' (Some ''abc'')
            None [])
       = Inr ''aGVsbG8=''"
proof -
  have args: "normalizeArgs ''acme/support'' ''README.md'' (Some ''abc'') None
     = (''acme'', Some ''support'', ''README.md'', Some ''abc'')"
    by code_simp
  have r: "''abc'' \<noteq> []" by simp
  have h1: "reposGetContent exampleContentRemote 0
        (contentParams ''acme'' (Some ''support'') ''README.md'' (Some ''abc'')) = Inl notFound"
    by (simp add: exampleContentRemote_def contentParams_def)
  have h2: "errStatus notFound = Some 404" by (simp add: notFound_def)
  have h3: "reposGet exampleContentRemote 1 ''acme'' (Some ''support'') = Inr ''main''"
    by (simp add: exampleContentRemote_def)
  have h4: "reposGetContent exampleContentRemote 2
        (contentParams ''acme'' (Some ''support'') ''README.md'' (Some ''main''))
      = Inr (Some ''aGVsbG8='') \<and> ''aGVsbG8='' \<noteq> []"
    by (simp add: exampleContentRemote_def contentParams_def)
  from getFileContent_fallback [OF args r, of exampleContentRemote id] h1 h2 h3 h4
  have "snd (getFileContent id exampleContentRemote ''acme/support'' ''README.md'' (Some ''abc'')
            None [])
       = [GetContent (contentParams ''acme'' (Some ''support'') ''README.md'' (Some ''abc'')),
          ReposGet ''acme'' (Some ''support''),
          GetContent (contentParams ''acme'' (Some ''support'') ''README.md'' (Some ''main''))]
     \<and> fst (getFileContent id exampleContentRemote ''acme/support'' ''README.md'' (Some ''abc'')
            None []) = Inr (id ''aGVsbG8='')"
    by blast
  with args h1 h2 h3 show ?thesis by simp
qed

text \<open>
  The claim as it was stated fails when the look-up of the repository fails: the fetch
  at the ref returns not-found, no fetch at a default branch follows, and a not-found
  error is raised.
\<close>

theorem getFileContent_lookup_failure_no_retry:
  "reposGetContent (exampleRemote 0 0) 0
     (contentParams ''acme'' (Some ''support'') ''README.md'' (Some ''abc'')) = Inl notFound
   \<and> getFileContent id (exampleRemote 0 0) ''acme/support'' ''README.md'' (Some ''abc'') None []
       = (Inl (Error ''File not found at path: README.md (ref: abc)''),
          [GetContent (contentParams ''acme'' (Some ''support'') ''README.md'' (Some ''abc'')),
           ReposGet ''acme'' (Some ''support'')])"
  by code_simp

section \<open>The loop of the Tree Reconstructor, in closed form\<close>

lemma pathMapAt_Some:
  "pathMapAt xs m p = Some k \<Longrightarrow> k < m \<and> path (xs ! k) = p"
  by (induction m) (auto split: if_splits)

lemma attaches_le:
  "attaches xs j k \<Longrightarrow> k \<le> j \<and> path (xs ! k) = parentPath (xs ! j)
     \<and> \<not> isRootParent (parentPath (xs ! j))"
  using pathMapAt_Some [of xs "Suc j" "parentPath (xs ! j)" k]
  by (auto simp: attaches_def)

lemma filter_attaches_new:
  "filter (\<lambda>j. attaches xs j n) [0 ..< Suc n] = (if attaches xs n n then [n] else [])"
proof -
  have "filter (\<lambda>j. attaches xs j n) [0 ..< n] = []"
    by (auto simp: filter_empty_conv dest: attaches_le)
  then show ?thesis by simp
qed

lemma nodeAt_new:
  "nodeAt xs (Suc n) n =
     (if attaches xs n n \<and> ftype (xs ! n) = TDir
      then (newNode (xs ! n)) \<lparr> children := Some [n] \<rparr> else newNode (xs ! n))"
  by (simp add: nodeAt_def filter_attaches_new newNode_def del: upt_Suc)

lemma nodeAt_old:
  "nodeAt xs (Suc n) k =
     (if attaches xs n k \<and> ftype (xs ! k) = TDir
      then (nodeAt xs n k) \<lparr> children := Some (filter (\<lambda>j. attaches xs j k) [0 ..< n] @ [n]) \<rparr>
      else nodeAt xs n k)"
  by (simp add: nodeAt_def)

lemma children_nodeAt:
  "children (nodeAt xs n k) =
     (if ftype (xs ! k) = TDir then Some (filter (\<lambda>j. attaches xs j k) [0 ..< n]) else None)"
  by (simp add: nodeAt_def)

lemma children_newNode: "children (newNode f) = (if ftype f = TDir then Some [] else None)"
  by (simp add: newNode_def)

lemma heap_Suc:
  "map (nodeAt xs (Suc n)) [0 ..< Suc n] =
     map (nodeAt xs (Suc n)) [0 ..< n] @ [nodeAt xs (Suc n) n]"
  by simp

lemma heap_no_attach:
  assumes "\<And>k. \<not> (attaches xs n k \<and> ftype (xs ! k) = TDir)"
  shows "map (nodeAt xs (Suc n)) [0 ..< Suc n] = map (nodeAt xs n) [0 ..< n] @ [newNode (xs ! n)]"
  using assms by (auto simp: nodeAt_new nodeAt_old heap_Suc simp del: upt_Suc)

lemma heap_attach:
  assumes att: "attaches xs n q" and dir: "ftype (xs ! q) = TDir"
  shows "map (nodeAt xs (Suc n)) [0 ..< Suc n] =
     (map (nodeAt xs n) [0 ..< n] @ [newNode (xs ! n)])
       [q := ((map (nodeAt xs n) [0 ..< n] @ [newNode (xs ! n)]) ! q)
               \<lparr> children := Some (the (children ((map (nodeAt xs n) [0 ..< n] @ [newNode (xs ! n)]) ! q)) @ [n]) \<rparr>]"
proof (rule nth_equalityI)
  show "length (map (nodeAt xs (Suc n)) [0 ..< Suc n]) =
     length ((map (nodeAt xs n) [0 ..< n] @ [newNode (xs ! n)])
       [q := ((map (nodeAt xs n) [0 ..< n] @ [newNode (xs ! n)]) ! q)
               \<lparr> children := Some (the (children ((map (nodeAt xs n) [0 ..< n] @ [newNode (xs ! n)]) ! q)) @ [n]) \<rparr>])"
    by simp
next
  fix i assume "i < length (map (nodeAt xs (Suc n)) [0 ..< Suc n])"
  then have i: "i < Suc n" by simp
  from att have q: "q \<le> n" by (auto dest: attaches_le)
  have uniq: "attaches xs n k \<Longrightarrow> k = q" for k
    using att by (simp add: attaches_def)
  let ?h = "map (nodeAt xs n) [0 ..< n] @ [newNode (xs ! n)]"
  show "map (nodeAt xs (Suc n)) [0 ..< Suc n] ! i =
      (?h [q := (?h ! q) \<lparr> children := Some (the (children (?h ! q)) @ [n]) \<rparr>]) ! i"
  proof (cases "i = q")
    case True
    show ?thesis
    proof (cases "q = n")
      case True
      with \<open>i = q\<close> att dir show ?thesis
        by (simp add: nth_append nodeAt_new children_newNode del: upt_Suc add: heap_Suc)
    next
      case False
      with q have "q < n" by simp
      with \<open>i = q\<close> att dir show ?thesis
        by (simp add: nth_append nodeAt_old children_nodeAt del: upt_Suc add: heap_Suc)
    qed
  next
    case False
    then have na: "\<not> attaches xs n i" using uniq by blast
    show ?thesis
    proof (cases "i = n")
      case True
      with False na show ?thesis
        by (simp add: nth_append nodeAt_new del: upt_Suc add: heap_Suc)
    next
      case F2: False
      with i have "i < n" by simp
      with False na show ?thesis
        by (simp add: nth_append nodeAt_old del: upt_Suc add: heap_Suc)
    qed
  qed
qed

lemma stateAt_Suc:
  "stateAt xs (Suc n) =
     \<lparr> stHeap = map (nodeAt xs (Suc n)) [0 ..< Suc n],
       stPathMap = (pathMapAt xs n)(path (xs ! n) \<mapsto> n),
       stTree = filter (\<lambda>j. isRootParent (parentPath (xs ! j))) [0 ..< n]
                @ (if isRootParent (parentPath (xs ! n)) then [n] else []) \<rparr>"
proof -
  have "filter (\<lambda>j. isRootParent (parentPath (xs ! j))) [0 ..< Suc n] =
      filter (\<lambda>j. isRootParent (parentPath (xs ! j))) [0 ..< n]
      @ (if isRootParent (parentPath (xs ! n)) then [n] else [])"
    by simp
  then show ?thesis by (simp add: stateAt_def del: upt_Suc)
qed

lemma insertNode_stateAt: "insertNode (stateAt xs n) (xs ! n) = stateAt xs (Suc n)"
proof (cases "isRootParent (parentPath (xs ! n))")
  case True
  then have "\<And>k. \<not> (attaches xs n k \<and> ftype (xs ! k) = TDir)" by (simp add: attaches_def)
  from heap_no_attach [OF this]
  have H: "map (nodeAt xs (Suc n)) [0 ..< Suc n] = map (nodeAt xs n) [0 ..< n] @ [newNode (xs ! n)]" .
  show ?thesis unfolding stateAt_Suc H using True
    by (simp add: insertNode_def stateAt_def Let_def)
next
  case False
  show ?thesis
  proof (cases "pathMapAt xs (Suc n) (parentPath (xs ! n))")
    case None
    then have "\<And>k. \<not> (attaches xs n k \<and> ftype (xs ! k) = TDir)" by (simp add: attaches_def)
    from heap_no_attach [OF this]
    have H: "map (nodeAt xs (Suc n)) [0 ..< Suc n] = map (nodeAt xs n) [0 ..< n] @ [newNode (xs ! n)]" .
    show ?thesis unfolding stateAt_Suc H using False None
      by (simp add: insertNode_def stateAt_def Let_def)
  next
    case (Some q)
    with False have att: "attaches xs n q" by (simp add: attaches_def)
    then have q: "q \<le> n" by (auto dest: attaches_le)
    have uniq: "attaches xs n k \<Longrightarrow> k = q" for k
      using att by (simp add: attaches_def)
    let ?h = "map (nodeAt xs n) [0 ..< n] @ [newNode (xs ! n)]"
    have ch: "children (?h ! q) =
        (if ftype (xs ! q) = TDir then Some (filter (\<lambda>j. attaches xs j q) [0 ..< n]) else None)"
    proof (cases "q = n")
      case True
      have "filter (\<lambda>j. attaches xs j n) [0 ..< n] = []"
        by (auto simp: filter_empty_conv dest: attaches_le)
      with True show ?thesis by (simp add: nth_append children_newNode)
    next
      case False
      with q have "q < n" by simp
      then show ?thesis by (simp add: nth_append children_nodeAt)
    qed
    show ?thesis
    proof (cases "ftype (xs ! q) = TDir")
      case True
      note H = heap_attach [OF att True]
      show ?thesis unfolding stateAt_Suc H using False Some ch True
        by (simp add: insertNode_def stateAt_def Let_def)
    next
      case F: False
      then have "\<And>k. \<not> (attaches xs n k \<and> ftype (xs ! k) = TDir)" using uniq by blast
      from heap_no_attach [OF this]
      have H: "map (nodeAt xs (Suc n)) [0 ..< Suc n] = map (nodeAt xs n) [0 ..< n] @ [newNode (xs ! n)]" .
      show ?thesis unfolding stateAt_Suc H using False Some ch F
        by (simp add: insertNode_def stateAt_def Let_def)
    qed
  qed
qed

lemma foldl_insertNode_take:
  "n \<le> length xs \<Longrightarrow>
     foldl insertNode \<lparr> stHeap = [], stPathMap = Map.empty, stTree = [] \<rparr> (take n xs) = stateAt xs n"
proof (induction n)
  case 0
  show ?case by (simp add: stateAt_def)
next
  case (Suc n)
  then have "take (Suc n) xs = take n xs @ [xs ! n]"
    by (simp add: take_Suc_conv_app_nth)
  with Suc show ?case by (simp add: insertNode_stateAt)
qed

lemma buildFileTree_stateAt:
  "buildFileTree key fs = stateAt (sortFiles key fs) (length fs)"
  using foldl_insertNode_take [of "length (sortFiles key fs)" "sortFiles key fs"]
  by (simp add: buildFileTree_def sortFiles_def)

section \<open>Entries without a parent node, and root entries\<close>

lemma length_sortFiles [simp]: "length (sortFiles key fs) = length fs"
  by (simp add: sortFiles_def)

lemma childrenOf_stateAt:
  "k < n \<Longrightarrow> childrenOf (stateAt xs n) k =
     (if ftype (xs ! k) = TDir then filter (\<lambda>j. attaches xs j k) [0 ..< n] else [])"
  by (simp add: childrenOf_def stateAt_def children_nodeAt)

lemma child_stateAt:
  assumes "k < n" and "j \<in> set (childrenOf (stateAt xs n) k)"
  shows "j < n \<and> attaches xs j k \<and> ftype (xs ! k) = TDir"
  using assms by (auto simp: childrenOf_stateAt split: if_splits)

lemma reachable_stateAt_bound: "reachable (stateAt xs n) a \<Longrightarrow> a < n"
proof (induction rule: reachable.induct)
  case (root a)
  then show ?case by (simp add: stateAt_def)
next
  case (child k a)
  then show ?case using child_stateAt by blast
qed

lemma attaches_self:
  "attaches xs j j \<longleftrightarrow> \<not> isRootParent (parentPath (xs ! j)) \<and> parentPath (xs ! j) = path (xs ! j)"
  using pathMapAt_Some [of xs j "parentPath (xs ! j)" j]
  by (auto simp: attaches_def)

lemma nodePath_stateAt: "j < n \<Longrightarrow> nodePath (stHeap (stateAt xs n) ! j) = path (xs ! j)"
  by (simp add: stateAt_def nodeAt_def newNode_def)

text \<open>
  Claim C10, as amended. Let the files be numbered in the order of the sorted pass;
  node \<open>j\<close> is the node made for file \<open>j\<close>. For every input list, no error is raised
  (the function is total), every entry whose \<open>parentPath\<close> is the empty string or \<open>/\<close> is
  in the returned root list, and every entry whose \<open>parentPath\<close> is neither and is not
  the path of a directory made earlier in the pass is omitted from the returned forest
  (it cannot be reached from the roots) and is on the \<open>children\<close> array of no other
  node; it is on its own \<open>children\<close> array exactly when it is a directory whose
  \<open>parentPath\<close> is its own path.
\<close>

theorem buildFileTree_roots_and_orphans:
  assumes j: "j < length fs"
  shows "nodePath (stHeap (buildFileTree key fs) ! j) = path (sortFiles key fs ! j)
    \<and> (isRootParent (parentPath (sortFiles key fs ! j)) \<longrightarrow>
          j \<in> set (stTree (buildFileTree key fs)))
    \<and> (\<not> isRootParent (parentPath (sortFiles key fs ! j))
        \<and> (\<forall>i<j. \<not> (path (sortFiles key fs ! i) = parentPath (sortFiles key fs ! j)
                      \<and> ftype (sortFiles key fs ! i) = TDir)) \<longrightarrow>
          \<not> reachable (buildFileTree key fs) j
          \<and> (\<forall>k < length (stHeap (buildFileTree key fs)).
                k \<noteq> j \<longrightarrow> j \<notin> set (childrenOf (buildFileTree key fs) k))
          \<and> (j \<in> set (childrenOf (buildFileTree key fs) j) \<longleftrightarrow>
                ftype (sortFiles key fs ! j) = TDir
                \<and> parentPath (sortFiles key fs ! j) = path (sortFiles key fs ! j)))"
proof -
  let ?xs = "sortFiles key fs" and ?n = "length fs"
  let ?st = "stateAt ?xs ?n"
  have st: "buildFileTree key fs = ?st" by (rule buildFileTree_stateAt)
  have len: "length (stHeap ?st) = ?n" by (simp add: stateAt_def)
  have p1: "nodePath (stHeap ?st ! j) = path (?xs ! j)"
    using j by (rule nodePath_stateAt)
  have p2: "isRootParent (parentPath (?xs ! j)) \<longrightarrow> j \<in> set (stTree ?st)"
    using j by (simp add: stateAt_def)
  have p3: "\<not> reachable ?st j
          \<and> (\<forall>k < length (stHeap ?st). k \<noteq> j \<longrightarrow> j \<notin> set (childrenOf ?st k))
          \<and> (j \<in> set (childrenOf ?st j) \<longleftrightarrow>
                ftype (?xs ! j) = TDir \<and> parentPath (?xs ! j) = path (?xs ! j))"
    if nr: "\<not> isRootParent (parentPath (?xs ! j))"
      and nd: "\<forall>i<j. \<not> (path (?xs ! i) = parentPath (?xs ! j) \<and> ftype (?xs ! i) = TDir)"
  proof -
    have only_self: "k = j" if "k < ?n" and "j \<in> set (childrenOf ?st k)" for k
    proof (rule ccontr)
      assume "k \<noteq> j"
      from child_stateAt [OF that] have a: "attaches ?xs j k" and d: "ftype (?xs ! k) = TDir"
        by simp_all
      from attaches_le [OF a] \<open>k \<noteq> j\<close> have "k < j" "path (?xs ! k) = parentPath (?xs ! j)"
        by simp_all
      with nd d show False by blast
    qed
    have "a \<noteq> j" if "reachable ?st a" for a
      using that
    proof (induction rule: reachable.induct)
      case (root a)
      then have "isRootParent (parentPath (?xs ! a))" by (simp add: stateAt_def)
      with nr show ?case by auto
    next
      case (child k a)
      from child.hyps(1) have "k < ?n" by (rule reachable_stateAt_bound)
      with child only_self show ?case by blast
    qed
    then have r: "\<not> reachable ?st j" by blast
    have o: "\<forall>k < length (stHeap ?st). k \<noteq> j \<longrightarrow> j \<notin> set (childrenOf ?st k)"
      using only_self len by auto
    have s: "j \<in> set (childrenOf ?st j) \<longleftrightarrow>
                ftype (?xs ! j) = TDir \<and> parentPath (?xs ! j) = path (?xs ! j)"
      using j nr by (auto simp: childrenOf_stateAt attaches_self)
    from r o s show ?thesis by blast
  qed
  from p1 p2 p3 show ?thesis unfolding st by blast
qed


theorem buildFileTree_roots_and_orphans_witness:
  "(0::nat) < length lateParentFiles
   \<and> map path (sortFiles codeUnitKey lateParentFiles) = [''b'', ''z'']
   \<and> \<not> isRootParent (parentPath (sortFiles codeUnitKey lateParentFiles ! 0))
   \<and> \<not> reachable (buildFileTree codeUnitKey lateParentFiles) 0
   \<and> 0 \<notin> set (childrenOf (buildFileTree codeUnitKey lateParentFiles) 1)
   \<and> 0 \<notin> set (childrenOf (buildFileTree codeUnitKey lateParentFiles) 0)
   \<and> (1::nat) < length lateParentFiles
   \<and> isRootParent (parentPath (sortFiles codeUnitKey lateParentFiles ! 1))
   \<and> 1 \<in> set (stTree (buildFileTree codeUnitKey lateParentFiles))"
proof -
  have l: "length lateParentFiles = 2" by code_simp
  have s: "map path (sortFiles codeUnitKey lateParentFiles) = [''b'', ''z'']" by code_simp
  have n0: "\<not> isRootParent (parentPath (sortFiles codeUnitKey lateParentFiles ! 0))"
    by code_simp
  have f0: "\<not> (ftype (sortFiles codeUnitKey lateParentFiles ! 0) = TDir
      \<and> parentPath (sortFiles codeUnitKey lateParentFiles ! 0)
          = path (sortFiles codeUnitKey lateParentFiles ! 0))"
    by code_simp
  have r1: "isRootParent (parentPath (sortFiles codeUnitKey lateParentFiles ! 1))"
    by code_simp
  have h: "length (stHeap (buildFileTree codeUnitKey lateParentFiles)) = 2" by code_simp
  from buildFileTree_roots_and_orphans [of 0 lateParentFiles codeUnitKey] l n0 f0 h
  have a: "\<not> reachable (buildFileTree codeUnitKey lateParentFiles) 0
     \<and> 0 \<notin> set (childrenOf (buildFileTree codeUnitKey lateParentFiles) 1)
     \<and> 0 \<notin> set (childrenOf (buildFileTree codeUnitKey lateParentFiles) 0)"
    by auto
  from buildFileTree_roots_and_orphans [of 1 lateParentFiles codeUnitKey] l r1
  have b: "1 \<in> set (stTree (buildFileTree codeUnitKey lateParentFiles))"
    by simp
  from a b l s n0 r1 show ?thesis by simp
qed

text \<open>
  The claim as it was stated (the node is attached nowhere) fails for a directory that
  names itself as its parent: no directory was made before it, it is not in the root
  list, and it is on its own \<open>children\<close> array.
\<close>

theorem buildFileTree_self_parent_attached:
  "map path (sortFiles codeUnitKey selfParentFiles) = [''a'']
   \<and> map parentPath (sortFiles codeUnitKey selfParentFiles) = [''a'']
   \<and> stTree (buildFileTree codeUnitKey selfParentFiles) = []
   \<and> map children (stHeap (buildFileTree codeUnitKey selfParentFiles)) = [Some [0]]"
  by code_simp

section \<open>The forest of a well-formed file list\<close>

lemma set_sortFiles [simp]: "set (sortFiles key fs) = set fs"
  by (simp add: sortFiles_def)

lemma distinct_sortFiles:
  "distinct (map path fs) \<Longrightarrow> distinct (map path (sortFiles key fs))"
  by (simp add: distinct_map sortFiles_def)

lemma sorted_sortFiles: "sorted (map (\<lambda>f. key (path f)) (sortFiles key fs))"
  by (simp add: sortFiles_def)

lemma pathMapAt_distinct:
  assumes d: "distinct (map path xs)" and m: "m \<le> length xs"
  shows "pathMapAt xs m p = Some k \<longleftrightarrow> k < m \<and> path (xs ! k) = p"
  using m
proof (induction m)
  case 0
  show ?case by simp
next
  case (Suc m)
  then have IH: "pathMapAt xs m p = Some k \<longleftrightarrow> k < m \<and> path (xs ! k) = p"
    and m: "m < length xs" by simp_all
  show ?case
  proof (cases "path (xs ! m) = p")
    case True
    have "k = m" if "k < Suc m" and "path (xs ! k) = p" for k
    proof -
      from that m have "k < length xs" by simp
      moreover from that True have "map path xs ! k = map path xs ! m"
        using m \<open>k < length xs\<close> by simp
      ultimately show ?thesis
        using nth_eq_iff_index_eq [OF d, of k m] m by simp
    qed
    with True show ?thesis by auto
  next
    case False
    with IH show ?thesis by (auto simp: less_Suc_eq)
  qed
qed


lemma parent_before_child:
  assumes A2: "\<forall>f \<in> set fs. parentPath f \<noteq> [] \<longrightarrow>
                 (\<exists>g \<in> set fs. path g = parentPath f \<and> ftype g = TDir)"
    and A3: "\<forall>f \<in> set fs. parentPath f \<noteq> [] \<longrightarrow> key (parentPath f) < key (path f)"
    and j: "j < length fs" and ne: "parentPath (sortFiles key fs ! j) \<noteq> []"
  shows "\<exists>i<j. path (sortFiles key fs ! i) = parentPath (sortFiles key fs ! j)
           \<and> ftype (sortFiles key fs ! i) = TDir"
proof -
  let ?xs = "sortFiles key fs"
  from j have mem: "?xs ! j \<in> set fs"
    by (metis length_sortFiles nth_mem set_sortFiles)
  with A2 ne obtain g where g: "g \<in> set fs" "path g = parentPath (?xs ! j)" "ftype g = TDir"
    by blast
  then have "g \<in> set ?xs" by simp
  then obtain i where i: "i < length ?xs" "?xs ! i = g"
    by (metis in_set_conv_nth)
  from A3 mem ne g(2) have lt: "key (path g) < key (path (?xs ! j))" by auto
  have "i < j"
  proof (rule ccontr)
    assume "\<not> i < j"
    then have "j \<le> i" by simp
    with sorted_sortFiles [of key fs] i(1)
    have "map (\<lambda>f. key (path f)) ?xs ! j \<le> map (\<lambda>f. key (path f)) ?xs ! i"
      by (simp add: sorted_iff_nth_mono)
    with i j have "key (path (?xs ! j)) \<le> key (path g)" by simp
    with lt show False by simp
  qed
  with i g show ?thesis by auto
qed

lemma flattenFrom_child:
  assumes inc: "\<And>k c. k < n \<Longrightarrow> c \<in> set (childrenOf st k) \<Longrightarrow> k < c \<and> c < n"
  shows "k \<in> set (flattenFrom m st r) \<Longrightarrow> c \<in> set (childrenOf st k) \<Longrightarrow> n \<le> m + r
           \<Longrightarrow> r < n \<Longrightarrow> c \<in> set (flattenFrom m st r)"
proof (induction m arbitrary: r)
  case 0
  then show ?case by simp
next
  case (Suc m)
  from Suc.prems(1) consider "k = r"
    | c' where "c' \<in> set (childrenOf st r)" "k \<in> set (flattenFrom m st c')"
    by auto
  then show ?case
  proof cases
    case 1
    with Suc.prems have c: "c \<in> set (childrenOf st r)" by simp
    from inc [OF Suc.prems(4) c] have "r < c" "c < n" by simp_all
    with Suc.prems(3) obtain m' where "m = Suc m'" by (cases m) auto
    then have "c \<in> set (flattenFrom m st c)" by simp
    with c show ?thesis by auto
  next
    case 2
    from inc [OF Suc.prems(4) 2(1)] have "r < c'" "c' < n" by simp_all
    with Suc.prems(3) have "n \<le> m + c'" by simp
    from Suc.IH [OF 2(2) Suc.prems(2) this \<open>c' < n\<close>] 2(1) show ?thesis by auto
  qed
qed

lemma flattenFrom_bound:
  assumes inc: "\<And>k c. k < n \<Longrightarrow> c \<in> set (childrenOf st k) \<Longrightarrow> k < c \<and> c < n"
  shows "r < n \<Longrightarrow> x \<in> set (flattenFrom m st r) \<Longrightarrow> x < n"
proof (induction m arbitrary: r)
  case 0
  then show ?case by simp
next
  case (Suc m)
  from Suc.prems(2) consider "x = r"
    | c' where "c' \<in> set (childrenOf st r)" "x \<in> set (flattenFrom m st c')"
    by auto
  then show ?case
  proof cases
    case 1
    with Suc.prems show ?thesis by simp
  next
    case 2
    from inc [OF Suc.prems(1) 2(1)] have "c' < n" by simp
    from Suc.IH [OF this 2(2)] show ?thesis .
  qed
qed


text \<open>
  Claim C1, as amended. For every flat list of file entries in which the paths are
  unique and not empty, every parent path that is not empty is the path of exactly
  one entry of kind \<open>dir\<close> of the list, is not \<open>/\<close>, and sorts strictly before the
  entry's own path in the collation of the sort (as a proper prefix does),
  \<open>buildFileTree\<close> returns a forest such that walking it depth-first and collecting
  the paths yields exactly the set of the input's paths, the nodes are the entries
  (in sorted order), and the \<open>children\<close> array of every directory node holds exactly
  the entries whose \<open>parentPath\<close> is that node's path.
\<close>

theorem buildFileTree_correct:
  assumes inv: "parentInvariant fs"
    and A3: "\<forall>f \<in> set fs. parentPath f \<noteq> [] \<longrightarrow> key (parentPath f) < key (path f)"
    and A4: "\<forall>f \<in> set fs. parentPath f \<noteq> ''/''"
    and A5: "\<forall>f \<in> set fs. path f \<noteq> []"
  shows "set (flattenPaths (buildFileTree key fs)) = path ` set fs
     \<and> map nodePath (stHeap (buildFileTree key fs)) = map path (sortFiles key fs)
     \<and> (\<forall>k < length fs. nodeType (stHeap (buildFileTree key fs) ! k) = TDir \<longrightarrow>
           children (stHeap (buildFileTree key fs) ! k) \<noteq> None
           \<and> (\<lambda>a. sortFiles key fs ! a) ` set (childrenOf (buildFileTree key fs) k)
               = {f \<in> set fs. parentPath f = nodePath (stHeap (buildFileTree key fs) ! k)})"
proof -
  from inv have A1: "distinct (map path fs)" by (simp add: parentInvariant_def)
  from inv have A2: "\<forall>f \<in> set fs. parentPath f \<noteq> [] \<longrightarrow>
                 (\<exists>g \<in> set fs. path g = parentPath f \<and> ftype g = TDir)"
    by (auto simp: parentInvariant_def list_all_iff list_ex_iff)
  let ?xs = "sortFiles key fs" and ?n = "length fs"
  let ?st = "stateAt ?xs ?n"
  have st: "buildFileTree key fs = ?st" by (rule buildFileTree_stateAt)
  have dx: "distinct (map path ?xs)" using A1 by (rule distinct_sortFiles)
  have mem: "?xs ! j \<in> set fs" if "j < ?n" for j
    using that by (metis length_sortFiles nth_mem set_sortFiles)
  have same: "i = k" if "i < ?n" "k < ?n" "path (?xs ! i) = path (?xs ! k)" for i k
    using nth_eq_iff_index_eq [OF dx, of i k] that by simp
  have pb: "\<exists>i<j. path (?xs ! i) = parentPath (?xs ! j) \<and> ftype (?xs ! i) = TDir"
    if "j < ?n" "parentPath (?xs ! j) \<noteq> []" for j
    using parent_before_child [OF A2 A3 that] .
  have root_iff: "isRootParent (parentPath (?xs ! j)) \<longleftrightarrow> parentPath (?xs ! j) = []"
    if "j < ?n" for j
    using mem [OF that] A4 by (auto simp: isRootParent_def)
  have att_iff: "attaches ?xs j k \<longleftrightarrow>
      parentPath (?xs ! j) \<noteq> [] \<and> path (?xs ! k) = parentPath (?xs ! j) \<and> k < j"
    if j: "j < ?n" and k: "k < ?n" for j k
  proof
    assume a: "attaches ?xs j k"
    then have ne: "parentPath (?xs ! j) \<noteq> []" and p: "path (?xs ! k) = parentPath (?xs ! j)"
      using attaches_le [OF a] root_iff [OF j] by simp_all
    from pb [OF j ne] obtain i where i: "i < j" "path (?xs ! i) = parentPath (?xs ! j)"
      by blast
    with same [of i k] j k p have "i = k" by simp
    with i ne p show "parentPath (?xs ! j) \<noteq> [] \<and> path (?xs ! k) = parentPath (?xs ! j) \<and> k < j"
      by simp
  next
    assume r: "parentPath (?xs ! j) \<noteq> [] \<and> path (?xs ! k) = parentPath (?xs ! j) \<and> k < j"
    have "pathMapAt ?xs (Suc j) (parentPath (?xs ! j)) = Some k"
      using pathMapAt_distinct [OF dx, of "Suc j" "parentPath (?xs ! j)" k] j r by simp
    with r root_iff [OF j] show "attaches ?xs j k" by (simp add: attaches_def)
  qed
  have inc: "k < c \<and> c < ?n" if "k < ?n" "c \<in> set (childrenOf ?st k)" for k c
  proof -
    from child_stateAt [OF that] have c: "c < ?n" and a: "attaches ?xs c k" by simp_all
    with att_iff [OF c that(1)] show ?thesis by simp
  qed
  have tree: "stTree ?st = filter (\<lambda>j. isRootParent (parentPath (?xs ! j))) [0 ..< ?n]"
    by (simp add: stateAt_def)
  have len: "length (stHeap ?st) = ?n" by (simp add: stateAt_def)
  have all: "j \<in> set (flatten ?st)" if "j < ?n" for j
    using that
  proof (induction j rule: less_induct)
    case (less j)
    show ?case
    proof (cases "parentPath (?xs ! j) = []")
      case True
      with less.prems have "j \<in> set (stTree ?st)" by (simp add: tree isRootParent_def)
      moreover from less.prems obtain m where "?n = Suc m" by (cases ?n) auto
      then have "j \<in> set (flattenFrom ?n ?st j)" by simp
      ultimately show ?thesis by (auto simp: flatten_def len)
    next
      case False
      from pb [OF less.prems False] obtain i where
        i: "i < j" "path (?xs ! i) = parentPath (?xs ! j)" "ftype (?xs ! i) = TDir"
        by blast
      then have i_n: "i < ?n" using less.prems by simp
      have "attaches ?xs j i" using att_iff [OF less.prems i_n] False i by simp
      then have ch: "j \<in> set (childrenOf ?st i)"
        using i_n i(3) less.prems by (simp add: childrenOf_stateAt)
      from less.IH [OF i(1) i_n] obtain r where
        r: "r \<in> set (stTree ?st)" "i \<in> set (flattenFrom ?n ?st r)"
        by (auto simp: flatten_def len)
      then have "r < ?n" by (simp add: tree)
      from flattenFrom_child [of ?n ?st i ?n r j, OF inc r(2) ch _ this]
      have "j \<in> set (flattenFrom ?n ?st r)" by simp
      with r(1) show ?thesis by (auto simp: flatten_def len)
    qed
  qed
  have bound: "x < ?n" if "x \<in> set (flatten ?st)" for x
  proof -
    from that obtain r where r: "r \<in> set (stTree ?st)" "x \<in> set (flattenFrom ?n ?st r)"
      by (auto simp: flatten_def len)
    then have "r < ?n" by (simp add: tree)
    from flattenFrom_bound [of ?n ?st r x ?n, OF inc this r(2)] show ?thesis .
  qed
  have flat: "set (flatten ?st) = {0 ..< ?n}"
    using all bound by auto
  have "set (flattenPaths ?st) = (\<lambda>a. nodePath (stHeap ?st ! a)) ` {0 ..< ?n}"
    by (simp add: flattenPaths_def flat)
  also have "\<dots> = (\<lambda>a. path (?xs ! a)) ` {0 ..< ?n}"
    by (rule image_cong) (simp_all add: nodePath_stateAt)
  also have "\<dots> = path ` set ?xs"
    by (auto simp: set_conv_nth image_iff) blast
  finally have c1: "set (flattenPaths ?st) = path ` set fs" by simp
  have c2: "map nodePath (stHeap ?st) = map path ?xs"
    by (rule nth_equalityI) (simp_all add: len nodePath_stateAt)
  have c3: "children (stHeap ?st ! k) \<noteq> None
           \<and> (\<lambda>a. ?xs ! a) ` set (childrenOf ?st k)
               = {f \<in> set fs. parentPath f = nodePath (stHeap ?st ! k)}"
    if k: "k < ?n" and d: "nodeType (stHeap ?st ! k) = TDir" for k
  proof -
    from k d have dir: "ftype (?xs ! k) = TDir"
      by (simp add: stateAt_def nodeAt_def newNode_def)
    have ne: "path (?xs ! k) \<noteq> []" using mem [OF k] A5 by blast
    have ch: "childrenOf ?st k = filter (\<lambda>j. attaches ?xs j k) [0 ..< ?n]"
      using k dir by (simp add: childrenOf_stateAt)
    have "(\<lambda>a. ?xs ! a) ` set (childrenOf ?st k) = {f \<in> set fs. parentPath f = path (?xs ! k)}"
    proof (intro set_eqI iffI)
      fix f assume "f \<in> (\<lambda>a. ?xs ! a) ` set (childrenOf ?st k)"
      then obtain j where j: "j < ?n" "attaches ?xs j k" "f = ?xs ! j"
        by (auto simp: ch)
      with att_iff [OF j(1) k] mem [OF j(1)]
      show "f \<in> {f \<in> set fs. parentPath f = path (?xs ! k)}" by simp
    next
      fix f assume "f \<in> {f \<in> set fs. parentPath f = path (?xs ! k)}"
      then have f: "f \<in> set ?xs" "parentPath f = path (?xs ! k)" by simp_all
      then obtain j where j: "j < length ?xs" "?xs ! j = f" by (metis in_set_conv_nth)
      then have jn: "j < ?n" by simp
      have pne: "parentPath (?xs ! j) \<noteq> []" using j f ne by simp
      from pb [OF jn pne] obtain i where
        i: "i < j" "path (?xs ! i) = parentPath (?xs ! j)" by blast
      with same [of i k] jn k j f have "i = k" by simp
      with i pne j f have "attaches ?xs j k" using att_iff [OF jn k] by simp
      with jn j show "f \<in> (\<lambda>a. ?xs ! a) ` set (childrenOf ?st k)"
        by (auto simp: ch image_iff)
    qed
    moreover have "children (stHeap ?st ! k) \<noteq> None"
      using k dir by (simp add: stateAt_def children_nodeAt)
    ultimately show ?thesis using k by (simp add: nodePath_stateAt)
  qed
  from c1 c2 c3 show ?thesis unfolding st by blast
qed


theorem buildFileTree_correct_witness:
  "parentInvariant exampleFiles
   \<and> list_all (\<lambda>f. parentPath f = [] \<or> codeUnitKey (parentPath f) < codeUnitKey (path f))
        exampleFiles
   \<and> list_all (\<lambda>f. parentPath f \<noteq> ''/'' \<and> path f \<noteq> []) exampleFiles
   \<and> flattenPaths (buildFileTree codeUnitKey exampleFiles)
       = [''src'', ''src/a.ts'', ''src/utils'', ''src/utils/b.ts'']
   \<and> set (flattenPaths (buildFileTree codeUnitKey exampleFiles)) = path ` set exampleFiles
   \<and> map nodePath (stHeap (buildFileTree codeUnitKey exampleFiles))
       = map path (sortFiles codeUnitKey exampleFiles)
   \<and> map children (stHeap (buildFileTree codeUnitKey exampleFiles))
       = [Some [1, 2], None, Some [3], None]"
proof -
  have inv: "parentInvariant exampleFiles" by code_simp
  have h3: "list_all (\<lambda>f. parentPath f = [] \<or> codeUnitKey (parentPath f) < codeUnitKey (path f))
        exampleFiles"
    by code_simp
  have h45: "list_all (\<lambda>f. parentPath f \<noteq> ''/'' \<and> path f \<noteq> []) exampleFiles"
    by code_simp
  from h3 have A3: "\<forall>f \<in> set exampleFiles.
         parentPath f \<noteq> [] \<longrightarrow> codeUnitKey (parentPath f) < codeUnitKey (path f)"
    by (auto simp: list_all_iff)
  from h45 have A4: "\<forall>f \<in> set exampleFiles. parentPath f \<noteq> ''/''"
    and A5: "\<forall>f \<in> set exampleFiles. path f \<noteq> []"
    by (auto simp: list_all_iff)
  have ev: "flattenPaths (buildFileTree codeUnitKey exampleFiles)
       = [''src'', ''src/a.ts'', ''src/utils'', ''src/utils/b.ts'']"
    by code_simp
  have ch: "map children (stHeap (buildFileTree codeUnitKey exampleFiles))
       = [Some [1, 2], None, Some [3], None]"
    by code_simp
  from buildFileTree_correct [OF inv A3 A4 A5] inv h3 h45 ev ch show ?thesis by blast
qed

text \<open>
  The claim as it was stated (uniqueness of the paths and existence of the parent
  directories only) fails on three lists that have the invariant: a file whose parent
  directory sorts after it is left out of the forest; a file whose parent is the
  directory with the path \<open>/\<close> becomes a root, not a child; and a directory with the
  empty path does not get the root entries as children.
\<close>

theorem buildFileTree_invariant_not_enough:
  "parentInvariant lateParentFiles
   \<and> map path lateParentFiles = [''b'', ''z'']
   \<and> flattenPaths (buildFileTree codeUnitKey lateParentFiles) = [''z'']
   \<and> parentInvariant slashParentFiles
   \<and> map path (sortFiles codeUnitKey slashParentFiles) = [''/'', ''/x'']
   \<and> map parentPath (sortFiles codeUnitKey slashParentFiles) = [[], ''/'']
   \<and> map children (stHeap (buildFileTree codeUnitKey slashParentFiles)) = [Some [], None]
   \<and> parentInvariant emptyPathFiles
   \<and> map path (sortFiles codeUnitKey emptyPathFiles) = [[], ''x'']
   \<and> map parentPath (sortFiles codeUnitKey emptyPathFiles) = [[], []]
   \<and> map children (stHeap (buildFileTree codeUnitKey emptyPathFiles)) = [Some [], None]"
  by code_simp

end
